theory Spec2Isabelle
  imports Main "HOL-Library.AList"
begin

section \<open>tg.py: the Telegram client wrapper\<close>

subsection \<open>Data\<close>

text \<open>
  The dataclass \<open>TgVideo\<close>. Its generated \<open>__eq__\<close> compares the fields, which is the
  equality of the record. \<open>duration\<close> is the number of seconds the remote reports.
\<close>

record TgVideo =
  caption :: "string option"
  duration :: int
  expected_size :: int
  downloaded_size :: int
  file_id :: int
  message_id :: int
  album :: "int list option"
  local_path :: "string option"
  source_group :: "string option"

definition completed :: "TgVideo \<Rightarrow> bool" where
  "completed v \<longleftrightarrow> expected_size v = downloaded_size v"

text \<open>
  The dictionaries the remote hands over: a file with its local copy, the video of a
  message, a message of the chat history, and an \<open>updateFile\<close> event.
\<close>

record local_file =
  lf_path :: string
  lf_downloaded_size :: int

record tg_file =
  f_id :: int
  f_size :: int
  f_local :: local_file

record video_content =
  vc_video :: tg_file
  vc_duration :: int

record message =
  m_id :: int
  m_media_album_id :: string
  m_video :: "video_content option"
  m_caption_text :: "string option"

record event =
  ev_file :: tg_file

text \<open>
  The remote client. A request is the method with its parameters; the result object has
  the fields \<open>error\<close>, \<open>error_info\<close> and \<open>update\<close> (the messages of a history page; no
  other caller reads \<open>update\<close>). The client is a parameter of every operation that calls it.
\<close>

datatype request =
    GetChatHistory int int "int option"
  | DownloadFile int nat
  | CancelDownloadFile int
  | DeleteFile int
  | DeleteMessages int "int list"

record result =
  r_error :: bool
  r_error_info :: string
  r_update :: "message list"

type_synonym client = "request \<Rightarrow> result"

fun method_name :: "request \<Rightarrow> string" where
  "method_name (GetChatHistory c l f) = ''get_chat_history''"
| "method_name (DownloadFile f p) = ''downloadFile''"
| "method_name (CancelDownloadFile f) = ''cancelDownloadFile''"
| "method_name (DeleteFile f) = ''deleteFile''"
| "method_name (DeleteMessages c ids) = ''deleteMessages''"

datatype exn = TgException string | KeyError | IndexError | TypeError | CallbackError string

definition chat_id :: int where
  "chat_id = 0"

text \<open>
  The state of a \<open>TgClient\<close>. Videos are objects: \<open>heap\<close> maps an address to the
  object stored there and \<open>next_ref\<close> is the first address not yet given out, so that
  the catalog \<open>_videos\<close>, the slots \<open>_loading\<close> and the caller can hold the same object.
  Both dictionaries keep their insertion order. A callback is known by its identity;
  what calling it does is the parameter \<open>run\<close> of the event handler. \<open>client_calls\<close>
  records the requests sent to the remote, \<open>notified\<close> the callback invocations.
\<close>

type_synonym ref = nat
type_synonym callback = nat

record notification =
  n_callback :: callback
  n_video :: TgVideo
  n_loading :: "(nat \<times> ref) list"

record tg_state =
  heap :: "ref \<Rightarrow> TgVideo"
  next_ref :: ref
  tg_videos :: "(int \<times> ref) list"
  tg_loading :: "(nat \<times> ref) list"
  tg_download_callbacks :: "callback list"
  client_calls :: "request list"
  notified :: "notification list"

subsection \<open>Remote calls\<close>

text \<open>\<open>_call\<close> and \<open>_call_wrap\<close>: send the request, raise \<open>TgException\<close> on an error.\<close>

definition call :: "client \<Rightarrow> request \<Rightarrow> tg_state \<Rightarrow> (exn + message list) \<times> tg_state" where
  "call cl req st =
     (let res = cl req;
          st' = st\<lparr>client_calls := client_calls st @ [req]\<rparr>
      in if r_error res
         then (Inl (TgException (''cant '' @ method_name req @ '': '' @ r_error_info res)), st')
         else (Inr (r_update res), st'))"

definition call_wrap :: "client \<Rightarrow> request \<Rightarrow> tg_state \<Rightarrow> (exn + message list) \<times> tg_state" where
  "call_wrap cl req st =
     (let res = cl req;
          st' = st\<lparr>client_calls := client_calls st @ [req]\<rparr>
      in if r_error res
         then (Inl (TgException (''cant wrap '' @ method_name req @ '': '' @ r_error_info res)), st')
         else (Inr (r_update res), st'))"

subsection \<open>Callbacks\<close>

definition add_download_callback :: "callback \<Rightarrow> tg_state \<Rightarrow> tg_state" where
  "add_download_callback cb st =
     st\<lparr>tg_download_callbacks := tg_download_callbacks st @ [cb]\<rparr>"

text \<open>\<open>list.remove\<close> deletes the first element equal to its argument.\<close>

definition remove_download_callback :: "callback \<Rightarrow> tg_state \<Rightarrow> tg_state" where
  "remove_download_callback cb st =
     (if cb \<in> set (tg_download_callbacks st)
      then st\<lparr>tg_download_callbacks := remove1 cb (tg_download_callbacks st)\<rparr>
      else st)"

subsection \<open>The download slots\<close>

text \<open>
  \<open>_remove_from_queue\<close>: the first slot, in insertion order, whose video equals the
  given one (by \<open>==\<close>, that is field by field) is popped.
\<close>

definition remove_from_queue :: "ref \<Rightarrow> tg_state \<Rightarrow> tg_state" where
  "remove_from_queue video st =
     (case find (\<lambda>(k, v). heap st v = heap st video) (tg_loading st) of
        None \<Rightarrow> st
      | Some (k, v) \<Rightarrow> st\<lparr>tg_loading := AList.delete k (tg_loading st)\<rparr>)"

text \<open>
  \<open>download_video\<close>: the \<open>for\<close> loop over \<open>range(2, 33)\<close> stops at the first number
  that is no key of \<open>_loading\<close>; its \<open>else\<close> branch returns \<open>None\<close>.
\<close>

definition download_video :: "client \<Rightarrow> ref \<Rightarrow> tg_state \<Rightarrow> (exn + nat option) \<times> tg_state" where
  "download_video cl video st =
     (case find (\<lambda>i. i \<notin> set (map fst (tg_loading st))) [2..<33] of
        None \<Rightarrow> (Inr None, st)
      | Some i \<Rightarrow>
          (let st1 = st\<lparr>tg_loading := AList.update i video (tg_loading st)\<rparr>
           in case call cl (DownloadFile (file_id (heap st1 video)) i) st1 of
                (Inl e, st2) \<Rightarrow> (Inl e, st2)
              | (Inr u, st2) \<Rightarrow> (Inr (Some i), st2)))"

definition cancel_download_video :: "client \<Rightarrow> ref \<Rightarrow> tg_state \<Rightarrow> (exn + unit) \<times> tg_state" where
  "cancel_download_video cl video st =
     (let st1 = remove_from_queue video st
      in case call cl (CancelDownloadFile (file_id (heap st1 video))) st1 of
           (Inl e, st2) \<Rightarrow> (Inl e, st2)
         | (Inr u, st2) \<Rightarrow> (Inr (), st2))"

definition delete_video :: "client \<Rightarrow> ref \<Rightarrow> tg_state \<Rightarrow> (exn + unit) \<times> tg_state" where
  "delete_video cl video st =
     (case call cl (DeleteFile (file_id (heap st video))) st of
        (Inl e, st1) \<Rightarrow> (Inl e, st1)
      | (Inr u, st1) \<Rightarrow> (Inr (), st1))"

text \<open>
  \<open>delete_message\<close>: \<open>if video.album\<close> is false for \<open>None\<close> and for the empty list;
  \<open>dict.pop\<close> of a missing key raises \<open>KeyError\<close>.
\<close>

definition delete_message :: "client \<Rightarrow> ref \<Rightarrow> tg_state \<Rightarrow> (exn + unit) \<times> tg_state" where
  "delete_message cl video st =
     (let v = heap st video;
          ids = [message_id v] @
                (case album v of None \<Rightarrow> [] | Some a \<Rightarrow> if a = [] then [] else a)
      in case call cl (DeleteMessages chat_id ids) st of
           (Inl e, st1) \<Rightarrow> (Inl e, st1)
         | (Inr u, st1) \<Rightarrow>
             (if file_id v \<in> set (map fst (tg_videos st1))
              then (Inr (), st1\<lparr>tg_videos := AList.delete (file_id v) (tg_videos st1)\<rparr>)
              else (Inl KeyError, st1)))"

subsection \<open>The update handler\<close>

text \<open>
  The loop over the callbacks. \<open>run cb v\<close> is what the call \<open>cb(video)\<close> does with the
  video \<open>v\<close>: \<open>None\<close> when it returns, \<open>Some e\<close> when it raises \<open>e\<close>. The callbacks of
  the repository only read the video and do not touch the client.
\<close>

fun notify :: "(callback \<Rightarrow> TgVideo \<Rightarrow> exn option) \<Rightarrow> ref \<Rightarrow> callback list \<Rightarrow> tg_state
    \<Rightarrow> (exn + unit) \<times> tg_state" where
  "notify run video [] st = (Inr (), st)"
| "notify run video (cb # cbs) st =
     (let st' = st\<lparr>notified := notified st @
                  [\<lparr>n_callback = cb, n_video = heap st video, n_loading = tg_loading st\<rparr>]\<rparr>
      in case run cb (heap st video) of
           Some e \<Rightarrow> (Inl e, st')
         | None \<Rightarrow> notify run video cbs st')"

definition update_file_handler :: "(callback \<Rightarrow> TgVideo \<Rightarrow> exn option) \<Rightarrow> event \<Rightarrow> tg_state
    \<Rightarrow> (exn + unit) \<times> tg_state" where
  "update_file_handler run ev st =
     (let event_file = ev_file ev
      in case map_of (tg_videos st) (f_id event_file) of
           None \<Rightarrow> (Inr (), st)
         | Some video \<Rightarrow>
             (let local_file = f_local event_file;
                  st1 = st\<lparr>heap := (heap st)(video := (heap st video)
                          \<lparr>local_path := (if lf_path local_file = [] then None
                                          else Some (lf_path local_file))\<rparr>)\<rparr>;
                  st2 = st1\<lparr>heap := (heap st1)(video := (heap st1 video)
                          \<lparr>downloaded_size := lf_downloaded_size local_file\<rparr>)\<rparr>;
                  st3 = (if completed (heap st2 video) then remove_from_queue video st2 else st2)
              in notify run video (tg_download_callbacks st3) st3))"

subsection \<open>The catalog\<close>

text \<open>
  \<open>_fetch_page\<close>. \<open>albums\<close> is a \<open>defaultdict(list)\<close>: every key has a list, empty at
  first. A video built in the loop holds the list object of its album, to which later
  messages of the page still append; so the loop keeps the album's key with the video
  and the list is read when the loop has ended. After that nothing changes it.
\<close>

definition fetch_message ::
  "message \<Rightarrow> (int \<times> TgVideo \<times> string option) list \<times> (string \<Rightarrow> int list)
     \<Rightarrow> (int \<times> TgVideo \<times> string option) list \<times> (string \<Rightarrow> int list)" where
  "fetch_message msg acc =
     (let videos = fst acc; albums = snd acc;
          album_id = m_media_album_id msg;
          album = (if album_id \<noteq> ''0'' then Some album_id else None)
      in case m_video msg of
           None \<Rightarrow>
             (case album of
                Some a \<Rightarrow> (videos, albums(a := albums a @ [m_id msg]))
              | None \<Rightarrow> (videos, albums))
         | Some video \<Rightarrow>
             (let video_file = vc_video video; local_file = f_local video_file
              in (AList.update (f_id video_file)
                    (\<lparr>caption = m_caption_text msg,
                      duration = vc_duration video,
                      expected_size = f_size video_file,
                      downloaded_size = lf_downloaded_size local_file,
                      file_id = f_id video_file,
                      message_id = m_id msg,
                      album = None,
                      local_path = Some (lf_path local_file),
                      source_group = None\<rparr>, album) videos, albums)))"

definition page_videos :: "message list \<Rightarrow> (int \<times> TgVideo) list" where
  "page_videos messages =
     (let acc = fold fetch_message messages ([], \<lambda>a. []);
          videos = fst acc; albums = snd acc
      in map (\<lambda>(k, v, a). (k, v\<lparr>album := map_option albums a\<rparr>)) videos)"

text \<open>The new objects get the next free addresses, in the order of the page.\<close>

fun alloc_page :: "(int \<times> TgVideo) list \<Rightarrow> tg_state \<Rightarrow> (int \<times> ref) list \<times> tg_state" where
  "alloc_page [] st = ([], st)"
| "alloc_page ((k, v) # kvs) st =
     (let r = next_ref st;
          st' = st\<lparr>heap := (heap st)(r := v), next_ref := Suc r\<rparr>;
          rest = alloc_page kvs st'
      in ((k, r) # fst rest, snd rest))"

definition fetch_page :: "client \<Rightarrow> int \<Rightarrow> int option \<Rightarrow> tg_state
    \<Rightarrow> (exn + (int \<times> ref) list) \<times> tg_state" where
  "fetch_page cl limit last_message_id st =
     (case call_wrap cl (GetChatHistory chat_id limit last_message_id) st of
        (Inl e, st1) \<Rightarrow> (Inl e, st1)
      | (Inr messages, st1) \<Rightarrow>
          (let page = alloc_page (page_videos messages) st1
           in (Inr (fst page), snd page)))"

definition videos :: "tg_state \<Rightarrow> ref list" where
  "videos st = map snd (tg_videos st)"

definition list_videos :: "client \<Rightarrow> int \<Rightarrow> tg_state \<Rightarrow> (exn + ref list) \<times> tg_state" where
  "list_videos cl limit st =
     (case fetch_page cl limit None st of
        (Inl e, st1) \<Rightarrow> (Inl e, st1)
      | (Inr page, st1) \<Rightarrow>
          (let st2 = st1\<lparr>tg_videos := page\<rparr> in (Inr (videos st2), st2)))"

text \<open>\<open>{**a, **b}\<close>: the items of \<open>b\<close> are stored into a copy of \<open>a\<close>, one after the other.\<close>

definition dict_merge :: "('k \<times> 'v) list \<Rightarrow> ('k \<times> 'v) list \<Rightarrow> ('k \<times> 'v) list" where
  "dict_merge a b = fold (\<lambda>(k, v). AList.update k v) b a"

definition load_next :: "client \<Rightarrow> int \<Rightarrow> tg_state \<Rightarrow> (exn + unit) \<times> tg_state" where
  "load_next cl limit st =
     (if videos st = []
      then (case list_videos cl 100 st of
              (Inl e, st1) \<Rightarrow> (Inl e, st1)
            | (Inr vs, st1) \<Rightarrow> (Inr (), st1))
      else
        (let last_message_id = message_id (heap st (last (videos st)))
         in case fetch_page cl limit (Some last_message_id) st of
              (Inl e, st1) \<Rightarrow> (Inl e, st1)
            | (Inr page, st1) \<Rightarrow>
                (Inr (), st1\<lparr>tg_videos := dict_merge (tg_videos st1) page\<rparr>)))"

text \<open>
  \<open>TgClient.__init__\<close>: no callbacks, an empty catalog, no slot taken. No address has
  been given out; what the store holds at such an address is never read.
\<close>

definition no_video :: TgVideo where
  "no_video = \<lparr>caption = None, duration = 0, expected_size = 0, downloaded_size = 0,
     file_id = 0, message_id = 0, album = None, local_path = None, source_group = None\<rparr>"

definition init_state :: tg_state where
  "init_state = \<lparr>heap = (\<lambda>r. no_video), next_ref = 0, tg_videos = [], tg_loading = [],
     tg_download_callbacks = [], client_calls = [], notified = []\<rparr>"

subsection \<open>Clients and call sequences\<close>

text \<open>A remote on which every call succeeds, and one on which every call fails.\<close>

definition ok_client :: client where
  "ok_client = (\<lambda>req. \<lparr>r_error = False, r_error_info = [], r_update = []\<rparr>)"

definition failing_client :: "string \<Rightarrow> client" where
  "failing_client info = (\<lambda>req. \<lparr>r_error = True, r_error_info = info, r_update = []\<rparr>)"

text \<open>\<open>download_video\<close> for one video after the other, with what each call gave.\<close>

fun download_all :: "client \<Rightarrow> ref list \<Rightarrow> tg_state \<Rightarrow> (exn + nat option) list \<times> tg_state" where
  "download_all cl [] st = ([], st)"
| "download_all cl (v # vs) st =
     (let r = download_video cl v st;
          rest = download_all cl vs (snd r)
      in (fst r # fst rest, snd rest))"

text \<open>
  A sequence of calls on the slots. A call that raises leaves the state as it was at
  the \<open>raise\<close>, and the next call goes on from there.
\<close>

datatype slot_call =
    DownloadVideo client ref
  | CancelDownloadVideo client ref
  | RemoveFromQueue ref

fun slot_step :: "slot_call \<Rightarrow> tg_state \<Rightarrow> tg_state" where
  "slot_step (DownloadVideo cl v) st = snd (download_video cl v st)"
| "slot_step (CancelDownloadVideo cl v) st = snd (cancel_download_video cl v st)"
| "slot_step (RemoveFromQueue v) st = remove_from_queue v st"

fun slot_run :: "slot_call list \<Rightarrow> tg_state \<Rightarrow> tg_state" where
  "slot_run [] st = st"
| "slot_run (c # cs) st = slot_run cs (slot_step c st)"

text \<open>No \<open>download_video\<close> of the sequence is for a video that holds a slot at that moment.\<close>

fun no_restart :: "slot_call list \<Rightarrow> tg_state \<Rightarrow> bool" where
  "no_restart [] st = True"
| "no_restart (c # cs) st =
     ((case c of DownloadVideo cl v \<Rightarrow> v \<notin> set (map snd (tg_loading st)) | _ \<Rightarrow> True)
      \<and> no_restart cs (slot_step c st))"

text \<open>
  The callbacks that the loop of the update handler calls: those up to the first one
  that raises, that one included.
\<close>

fun called :: "(callback \<Rightarrow> TgVideo \<Rightarrow> exn option) \<Rightarrow> TgVideo \<Rightarrow> callback list \<Rightarrow> callback list" where
  "called run v [] = []"
| "called run v (cb # cbs) = cb # (case run cb v of Some e \<Rightarrow> [] | None \<Rightarrow> called run v cbs)"


text \<open>
  The video of the catalog with file id \<open>fid\<close> is the object \<open>r\<close>; it holds slot
  \<open>s\<close>, and no other slot holds a video of the same file.
\<close>

definition holds_slot :: "tg_state \<Rightarrow> int \<Rightarrow> ref \<Rightarrow> nat \<Rightarrow> bool" where
  "holds_slot st fid r s \<longleftrightarrow>
     map_of (tg_videos st) fid = Some r \<and>
     distinct (map fst (tg_loading st)) \<and>
     (s, r) \<in> set (tg_loading st) \<and>
     (\<forall>(k, v) \<in> set (tg_loading st). k \<noteq> s \<longrightarrow> file_id (heap st v) \<noteq> file_id (heap st r))"

text \<open>What the update handler stores in the video \<open>v\<close> for the local file of an event.\<close>

definition updated :: "local_file \<Rightarrow> TgVideo \<Rightarrow> TgVideo" where
  "updated local_file v =
     v\<lparr>local_path := (if lf_path local_file = [] then None else Some (lf_path local_file)),
       downloaded_size := lf_downloaded_size local_file\<rparr>"

text \<open>
  The events that the remote delivers, handled in their order. An exception of a
  callback leaves the handler; the state stays as it was at that moment.
\<close>

fun deliver :: "(callback \<Rightarrow> TgVideo \<Rightarrow> exn option) \<Rightarrow> event list \<Rightarrow> tg_state \<Rightarrow> tg_state" where
  "deliver run [] st = st"
| "deliver run (ev # evs) st = deliver run evs (snd (update_file_handler run ev st))"

text \<open>
  A client for examples: one video of 1000 bytes (file 7, message 70) in the catalog,
  which holds slot 2, and the callbacks 1, 2 and 3; an event for this file; and a
  behaviour of the callbacks in which callback 2 raises.
\<close>

definition example_state :: tg_state where
  "example_state =
     \<lparr>heap = (\<lambda>r. no_video)(0 := no_video\<lparr>expected_size := 1000, file_id := 7, message_id := 70\<rparr>),
      next_ref = 1, tg_videos = [(7, 0)], tg_loading = [(2, 0)],
      tg_download_callbacks = [1, 2, 3], client_calls = [], notified = []\<rparr>"

definition example_event :: "int \<Rightarrow> event" where
  "example_event n =
     \<lparr>ev_file = \<lparr>f_id = 7, f_size = 1000,
                  f_local = \<lparr>lf_path = ''/tmp/v'', lf_downloaded_size = n\<rparr>\<rparr>\<rparr>"

definition second_raises :: "callback \<Rightarrow> TgVideo \<Rightarrow> exn option" where
  "second_raises cb v = (if cb = 2 then Some (CallbackError ''boom'') else None)"

definition all_return :: "callback \<Rightarrow> TgVideo \<Rightarrow> exn option" where
  "all_return cb v = None"

text \<open>
  The example client when its video is the only video of an album with the two text
  messages 71 and 72, and when half of its video has been downloaded; a message of the
  history with the same video, nothing of it downloaded; a remote that answers every
  call with the given messages.
\<close>

definition album_state :: tg_state where
  "album_state =
     example_state\<lparr>heap := (heap example_state)(0 := (heap example_state 0)\<lparr>album := Some [71, 72]\<rparr>)\<rparr>"

definition downloading_state :: tg_state where
  "downloading_state =
     example_state\<lparr>heap := (heap example_state)
        (0 := (heap example_state 0)\<lparr>downloaded_size := 500, local_path := Some ''/tmp/v''\<rparr>)\<rparr>"

definition example_message :: message where
  "example_message =
     \<lparr>m_id = 70, m_media_album_id = ''0'',
      m_video = Some \<lparr>vc_video = \<lparr>f_id = 7, f_size = 1000,
                                    f_local = \<lparr>lf_path = [], lf_downloaded_size = 0\<rparr>\<rparr>,
                      vc_duration = 60\<rparr>,
      m_caption_text = None\<rparr>"

definition history_client :: "message list \<Rightarrow> client" where
  "history_client messages = (\<lambda>req. \<lparr>r_error = False, r_error_info = [], r_update = messages\<rparr>)"

text \<open>
  Two states that use of the client leads to: the downloading client after
  \<open>list_videos\<close> has fetched the history again, and the example client after a second
  \<open>download_video\<close> for its video.
\<close>

definition refetched_state :: tg_state where
  "refetched_state = snd (list_videos (history_client [example_message]) 100 downloading_state)"

definition restarted_state :: tg_state where
  "restarted_state = snd (download_video ok_client 0 example_state)"

text \<open>
  What a fetch of \<open>page\<close> has done when it leads from \<open>st\<close> to \<open>st'\<close>: each file of
  the page has a new object with the values of the page as its entry of the catalog;
  the objects that existed before are as they were, and so are the slots.
\<close>

definition replaced_by_page :: "tg_state \<Rightarrow> (int \<times> TgVideo) list \<Rightarrow> tg_state \<Rightarrow> bool" where
  "replaced_by_page st page st' \<longleftrightarrow>
     list_all (\<lambda>i. map_of (tg_videos st') (fst (page ! i)) = Some (next_ref st + i) \<and>
                    heap st' (next_ref st + i) = snd (page ! i)) [0..<length page] \<and>
     list_all (\<lambda>a. heap st' a = heap st a) [0..<next_ref st] \<and>
     tg_loading st' = tg_loading st"

section \<open>tui.py: the scrollable list\<close>

text \<open>
  \<open>ScrollableListMixin\<close>: the focused index (\<open>None\<close> at first) and the render offset.
  The list \<open>items\<close> and \<open>available_height\<close> are properties of the widget that mixes
  the class in, here parameters.
\<close>

record window =
  focused_index :: "int option"
  render_offset :: int

text \<open>
  \<open>focused_item\<close>. A negative index counts from the end of the list and raises
  \<open>IndexError\<close> below \<open>-len(items)\<close>.
\<close>

definition focused_item :: "'a list \<Rightarrow> window \<Rightarrow> exn + 'a option" where
  "focused_item items w =
     (case focused_index w of
        None \<Rightarrow> Inr None
      | Some i \<Rightarrow>
          (let ln = int (length items)
           in if i \<ge> ln then Inr None
              else if 0 \<le> i then Inr (Some (items ! nat i))
              else if - ln \<le> i then Inr (Some (items ! nat (ln + i)))
              else Inl IndexError))"

definition check_offset :: "int \<Rightarrow> int \<Rightarrow> window \<Rightarrow> window" where
  "check_offset available_height pos w =
     (let end_pos = render_offset w + available_height - 1
      in if pos > end_pos then w\<lparr>render_offset := pos - available_height + 1\<rparr>
         else if pos < render_offset w then w\<lparr>render_offset := pos\<rparr>
         else w)"

text \<open>
  \<open>_scroll\<close>. The items of a list are never \<open>None\<close>, so \<open>focused_item not in items\<close>
  holds when there is no focused item. Adding to an index that is \<open>None\<close> would raise
  \<open>TypeError\<close>.
\<close>

definition scroll :: "'a list \<Rightarrow> int \<Rightarrow> int \<Rightarrow> window \<Rightarrow> exn + window" where
  "scroll items available_height delta w =
     (if items = [] then Inr (w\<lparr>focused_index := None\<rparr>)
      else case focused_item items w of
             Inl e \<Rightarrow> Inl e
           | Inr item \<Rightarrow>
               if (case item of None \<Rightarrow> True | Some x \<Rightarrow> x \<notin> set items)
               then Inr (w\<lparr>render_offset := 0, focused_index := Some 0\<rparr>)
               else (case focused_index w of
                       None \<Rightarrow> Inl TypeError
                     | Some i \<Rightarrow>
                         (let ln = int (length items);
                              new = (ln + i + delta) mod ln
                          in Inr ((check_offset available_height new w)
                                    \<lparr>focused_index := Some new\<rparr>))))"

definition key_home :: "'a list \<Rightarrow> window \<Rightarrow> window" where
  "key_home items w =
     (if items = [] then w else w\<lparr>render_offset := 0, focused_index := Some 0\<rparr>)"

definition key_end :: "'a list \<Rightarrow> int \<Rightarrow> window \<Rightarrow> window" where
  "key_end items available_height w =
     (if items = [] then w
      else (check_offset available_height (int (length items) - 1) w)
             \<lparr>focused_index := Some (int (length items) - 1)\<rparr>)"

text \<open>A sequence of calls on one widget; an exception ends it.\<close>

datatype window_call = Scroll int | KeyHome | KeyEnd

fun window_step :: "'a list \<Rightarrow> int \<Rightarrow> window_call \<Rightarrow> window \<Rightarrow> exn + window" where
  "window_step items h (Scroll delta) w = scroll items h delta w"
| "window_step items h KeyHome w = Inr (key_home items w)"
| "window_step items h KeyEnd w = Inr (key_end items h w)"

fun window_run :: "'a list \<Rightarrow> int \<Rightarrow> window_call list \<Rightarrow> window \<Rightarrow> exn + window" where
  "window_run items h [] w = Inr w"
| "window_run items h (c # cs) w =
     (case window_step items h c w of
        Inl e \<Rightarrow> Inl e
      | Inr w' \<Rightarrow> window_run items h cs w')"

definition window_init :: window where
  "window_init = \<lparr>focused_index = None, render_offset = 0\<rparr>"

text \<open>The focus, when set, is an index of the list and lies in the rendered part.\<close>

definition focus_visible :: "int \<Rightarrow> int \<Rightarrow> window \<Rightarrow> bool" where
  "focus_visible n h w \<longleftrightarrow>
     0 \<le> render_offset w \<and>
     (case focused_index w of
        None \<Rightarrow> True
      | Some f \<Rightarrow> 0 \<le> f \<and> f \<le> n - 1 \<and> render_offset w \<le> f \<and> f \<le> render_offset w + h - 1)"

section \<open>Properties of the callback list\<close>

lemma remove1_first_occurrence:
  "x \<notin> set xs \<Longrightarrow> remove1 x (xs @ x # ys) = xs @ ys"
  by (induction xs) auto

text \<open>
  Claim C10. \<open>remove_download_callback\<close> leaves the state as it is when the callback
  is not registered; when it is registered, once or several times, exactly its first
  occurrence is taken out of the list and the later ones stay at their places.
\<close>

theorem remove_download_callback_first:
  "(cb \<notin> set (tg_download_callbacks st) \<longrightarrow> remove_download_callback cb st = st) \<and>
   (tg_download_callbacks st = xs @ cb # ys \<and> cb \<notin> set xs \<longrightarrow>
      remove_download_callback cb st = st\<lparr>tg_download_callbacks := xs @ ys\<rparr>)"
  by (simp add: remove_download_callback_def remove1_first_occurrence)

theorem remove_download_callback_first_witness:
  "(4 \<notin> set (tg_download_callbacks (init_state\<lparr>tg_download_callbacks := [7, 5, 7]\<rparr>)) \<and>
    remove_download_callback 4 (init_state\<lparr>tg_download_callbacks := [7, 5, 7]\<rparr>)
      = init_state\<lparr>tg_download_callbacks := [7, 5, 7]\<rparr>) \<and>
   (tg_download_callbacks (init_state\<lparr>tg_download_callbacks := [5, 7, 6, 7]\<rparr>) = [5] @ 7 # [6, 7] \<and>
    7 \<notin> set [5 :: nat] \<and>
    remove_download_callback 7 (init_state\<lparr>tg_download_callbacks := [5, 7, 6, 7]\<rparr>)
      = init_state\<lparr>tg_download_callbacks := [5, 6, 7]\<rparr>)"
  using remove_download_callback_first
          [of 4 "init_state\<lparr>tg_download_callbacks := [7, 5, 7]\<rparr>" "[]" "[]"]
        remove_download_callback_first
          [of 7 "init_state\<lparr>tg_download_callbacks := [5, 7, 6, 7]\<rparr>" "[5]" "[6, 7]"]
  by simp

section \<open>Properties of the scrollable list\<close>

lemma check_offset_visible:
  assumes "1 \<le> h" "0 \<le> render_offset w" "0 \<le> pos"
  shows "0 \<le> render_offset (check_offset h pos w) \<and>
         render_offset (check_offset h pos w) \<le> pos \<and>
         pos \<le> render_offset (check_offset h pos w) + h - 1"
  using assms by (auto simp: check_offset_def Let_def)

lemma check_offset_focus [simp]:
  "focused_index (check_offset h pos w) = focused_index w"
  by (simp add: check_offset_def Let_def)

lemma focused_item_in_range:
  assumes "focused_index w = Some f" "0 \<le> f" "f \<le> int (length items) - 1"
  shows "focused_item items w = Inr (Some (items ! nat f))" "items ! nat f \<in> set items"
  using assms by (auto simp: focused_item_def Let_def)

lemma scroll_focus_visible:
  assumes "items \<noteq> []" "1 \<le> h" "focus_visible (int (length items)) h w"
  shows "\<exists>w'. scroll items h delta w = Inr w' \<and> focus_visible (int (length items)) h w' \<and>
           focused_index w' = Some (case focused_index w of None \<Rightarrow> 0
                                     | Some f \<Rightarrow> (int (length items) + f + delta) mod int (length items))"
proof (cases "focused_index w")
  case None
  with assms show ?thesis
    by (cases items) (auto simp: scroll_def focused_item_def focus_visible_def)
next
  case (Some f)
  let ?n = "int (length items)"
  let ?new = "(?n + f + delta) mod ?n"
  from assms(1) have n: "0 < ?n" by simp
  from assms(3) Some have f: "0 \<le> f" "f \<le> ?n - 1" and off: "0 \<le> render_offset w"
    by (auto simp: focus_visible_def)
  have new: "0 \<le> ?new" "?new \<le> ?n - 1"
    using n by simp_all
  have sc: "scroll items h delta w = Inr ((check_offset h ?new w)\<lparr>focused_index := Some ?new\<rparr>)"
    using assms(1) Some focused_item_in_range[OF Some f]
    by (simp add: scroll_def Let_def)
  have "focus_visible ?n h ((check_offset h ?new w)\<lparr>focused_index := Some ?new\<rparr>)"
    using check_offset_visible[OF assms(2) off new(1)] new
    by (simp add: focus_visible_def)
  with sc Some show ?thesis by simp
qed

lemma key_home_focus_visible:
  assumes "items \<noteq> []" "1 \<le> h"
  shows "focus_visible (int (length items)) h (key_home items w)"
  using assms by (cases items) (auto simp: key_home_def focus_visible_def)

lemma key_end_focus_visible:
  assumes "items \<noteq> []" "1 \<le> h" "focus_visible (int (length items)) h w"
  shows "focus_visible (int (length items)) h (key_end items h w)"
proof -
  have off: "0 \<le> render_offset w" using assms(3) by (simp add: focus_visible_def)
  have pos: "0 \<le> int (length items) - 1" using assms(1) by (cases items) auto
  show ?thesis
    using assms(1) check_offset_visible[OF assms(2) off pos] pos
    by (simp add: key_end_def focus_visible_def)
qed

lemma window_step_focus_visible:
  assumes "items \<noteq> []" "1 \<le> h" "focus_visible (int (length items)) h w"
  shows "\<exists>w'. window_step items h c w = Inr w' \<and> focus_visible (int (length items)) h w'"
proof (cases c)
  case (Scroll delta)
  with scroll_focus_visible[OF assms, of delta] show ?thesis by auto
next
  case KeyHome
  with key_home_focus_visible[OF assms(1,2)] show ?thesis by simp
next
  case KeyEnd
  with key_end_focus_visible[OF assms] show ?thesis by simp
qed

lemma window_run_focus_visible:
  assumes "items \<noteq> []" "1 \<le> h" "focus_visible (int (length items)) h w"
  shows "\<exists>w'. window_run items h cs w = Inr w' \<and> focus_visible (int (length items)) h w'"
  using assms(3)
proof (induction cs arbitrary: w)
  case Nil
  then show ?case by simp
next
  case (Cons c cs)
  from window_step_focus_visible[OF assms(1,2) Cons.prems]
  obtain w1 where w1: "window_step items h c w = Inr w1" "focus_visible (int (length items)) h w1"
    by blast
  from Cons.IH[OF w1(2)] w1(1) show ?case by simp
qed

text \<open>
  Claim C6. For a list of fixed size \<open>n \<ge> 1\<close> and a viewport of height \<open>h \<ge> 1\<close>,
  every sequence of \<open>_scroll\<close>, \<open>key_home\<close> and \<open>key_end\<close> calls on a new widget
  (no focus, offset 0) runs without an exception, and in the state it reaches
  \<open>0 \<le> offset \<le> focused_index \<le> offset + h - 1\<close> and \<open>0 \<le> focused_index \<le> n - 1\<close>
  whenever the focus is set. Every prefix of a sequence is a sequence, so this holds
  after every call. A further \<open>_scroll\<close> by \<open>delta\<close> moves a set focus \<open>f\<close> to
  \<open>(n + f + delta) mod n\<close>, wrapping in both directions.
\<close>

theorem window_run_keeps_focus_visible:
  assumes "items \<noteq> []" and "1 \<le> h"
  shows "\<exists>w. window_run items h cs window_init = Inr w \<and>
           0 \<le> render_offset w \<and>
           (\<forall>f. focused_index w = Some f \<longrightarrow>
                  render_offset w \<le> f \<and> f \<le> render_offset w + h - 1 \<and>
                  0 \<le> f \<and> f \<le> int (length items) - 1) \<and>
           (\<forall>delta. \<exists>w'. scroll items h delta w = Inr w' \<and>
                  focused_index w' =
                    Some (case focused_index w of
                            None \<Rightarrow> 0
                          | Some f \<Rightarrow> (int (length items) + f + delta) mod int (length items)))"
proof -
  have "focus_visible (int (length items)) h window_init"
    by (simp add: focus_visible_def window_init_def)
  from window_run_focus_visible[OF assms this, of cs]
  obtain w where w: "window_run items h cs window_init = Inr w"
      "focus_visible (int (length items)) h w"
    by blast
  have "\<forall>delta. \<exists>w'. scroll items h delta w = Inr w' \<and>
          focused_index w' =
            Some (case focused_index w of
                    None \<Rightarrow> 0
                  | Some f \<Rightarrow> (int (length items) + f + delta) mod int (length items))"
    using scroll_focus_visible[OF assms w(2)] by blast
  with w show ?thesis
    by (auto simp: focus_visible_def)
qed

theorem window_run_keeps_focus_visible_witness:
  "''abcdefghijkl'' \<noteq> [] \<and> (1 :: int) \<le> 5 \<and>
   window_run ''abcdefghijkl'' 5 [KeyHome, Scroll 7, Scroll 6, Scroll (- 2)] window_init
     = Inr \<lparr>focused_index = Some 11, render_offset = 7\<rparr> \<and>
   (\<exists>w. window_run ''abcdefghijkl'' 5 [KeyHome, Scroll 7, Scroll 6, Scroll (- 2)] window_init = Inr w \<and>
        0 \<le> render_offset w \<and>
        (\<forall>f. focused_index w = Some f \<longrightarrow>
               render_offset w \<le> f \<and> f \<le> render_offset w + 5 - 1 \<and>
               0 \<le> f \<and> f \<le> int (length ''abcdefghijkl'') - 1))"
proof -
  have ne: "''abcdefghijkl'' \<noteq> []" by simp
  have h: "(1 :: int) \<le> 5" by simp
  have run: "window_run ''abcdefghijkl'' 5 [KeyHome, Scroll 7, Scroll 6, Scroll (- 2)] window_init
     = Inr \<lparr>focused_index = Some 11, render_offset = 7\<rparr>"
    by (simp add: window_init_def key_home_def scroll_def focused_item_def check_offset_def)
  from window_run_keeps_focus_visible[OF ne h, of "[KeyHome, Scroll 7, Scroll 6, Scroll (- 2)]"]
  have "\<exists>w. window_run ''abcdefghijkl'' 5 [KeyHome, Scroll 7, Scroll 6, Scroll (- 2)] window_init = Inr w \<and>
        0 \<le> render_offset w \<and>
        (\<forall>f. focused_index w = Some f \<longrightarrow>
               render_offset w \<le> f \<and> f \<le> render_offset w + 5 - 1 \<and>
               0 \<le> f \<and> f \<le> int (length ''abcdefghijkl'') - 1)"
    by blast
  with ne h run show ?thesis by blast
qed

section \<open>Properties of the download slots\<close>

lemma update_new_key:
  "k \<notin> set (map fst al) \<Longrightarrow> AList.update k v al = al @ [(k, v)]"
  by (induction al) auto

lemma find_upt_least:
  assumes "a \<le> k" "k < b" "P k" "\<forall>j. a \<le> j \<and> j < k \<longrightarrow> \<not> P j"
  shows "find P [a..<b] = Some k"
proof -
  have "k - a < length [a..<b]" using assms by simp
  moreover have "[a..<b] ! (k - a) = k" using assms by simp
  moreover have "\<forall>j<k - a. \<not> P ([a..<b] ! j)" using assms by auto
  ultimately show ?thesis
    using assms(3) unfolding find_Some_iff by metis
qed

lemma find_upt_none:
  assumes "\<forall>j. a \<le> j \<and> j < b \<longrightarrow> \<not> P j"
  shows "find P [a..<b] = None"
  using assms by (simp add: find_None_iff)

lemma download_video_first_free:
  assumes "2 \<le> i" "i \<le> 32" "i \<notin> set (map fst (tg_loading st))"
    "\<forall>j. 2 \<le> j \<and> j < i \<longrightarrow> j \<in> set (map fst (tg_loading st))"
  shows "tg_loading (snd (download_video cl v st)) = tg_loading st @ [(i, v)]"
    "client_calls (snd (download_video cl v st)) = client_calls st @ [DownloadFile (file_id (heap st v)) i]"
    "heap (snd (download_video cl v st)) = heap st"
    "\<not> r_error (cl (DownloadFile (file_id (heap st v)) i)) \<Longrightarrow> fst (download_video cl v st) = Inr (Some i)"
    "r_error (cl (DownloadFile (file_id (heap st v)) i)) \<Longrightarrow> fst (download_video cl v st) =
        Inl (TgException (''cant downloadFile: '' @ r_error_info (cl (DownloadFile (file_id (heap st v)) i))))"
proof -
  have "find (\<lambda>i. i \<notin> set (map fst (tg_loading st))) [2..<33] = Some i"
    using assms by (intro find_upt_least) auto
  then show "tg_loading (snd (download_video cl v st)) = tg_loading st @ [(i, v)]"
    "client_calls (snd (download_video cl v st)) = client_calls st @ [DownloadFile (file_id (heap st v)) i]"
    "heap (snd (download_video cl v st)) = heap st"
    "\<not> r_error (cl (DownloadFile (file_id (heap st v)) i)) \<Longrightarrow> fst (download_video cl v st) = Inr (Some i)"
    "r_error (cl (DownloadFile (file_id (heap st v)) i)) \<Longrightarrow> fst (download_video cl v st) =
        Inl (TgException (''cant downloadFile: '' @ r_error_info (cl (DownloadFile (file_id (heap st v)) i))))"
    using assms(3) by (simp_all add: download_video_def call_def Let_def update_new_key)
qed

lemma download_video_full:
  assumes "\<forall>j. 2 \<le> j \<and> j \<le> 32 \<longrightarrow> j \<in> set (map fst (tg_loading st))"
  shows "download_video cl v st = (Inr None, st)"
proof -
  have "find (\<lambda>i. i \<notin> set (map fst (tg_loading st))) [2..<33] = None"
    using assms by (intro find_upt_none) auto
  then show ?thesis by (simp add: download_video_def)
qed

lemma download_all_fills:
  assumes "\<forall>req. \<not> r_error (cl req)"
  shows "map fst (tg_loading st) = [2..<k] \<Longrightarrow> 2 \<le> k \<Longrightarrow> k + length vs \<le> 33 \<Longrightarrow>
    fst (download_all cl vs st) = map (\<lambda>i. Inr (Some i)) [k..<k + length vs] \<and>
    tg_loading (snd (download_all cl vs st)) = tg_loading st @ zip [k..<k + length vs] vs"
proof (induction vs arbitrary: st k)
  case Nil
  then show ?case by simp
next
  case (Cons v vs)
  let ?st1 = "snd (download_video cl v st)"
  have free: "2 \<le> k" "k \<le> 32" "k \<notin> set (map fst (tg_loading st))"
    "\<forall>j. 2 \<le> j \<and> j < k \<longrightarrow> j \<in> set (map fst (tg_loading st))"
    using Cons.prems by auto
  note dv = download_video_first_free[OF free, of cl v]
  have r: "fst (download_video cl v st) = Inr (Some k)"
    using dv(4) assms by simp
  have keys: "map fst (tg_loading ?st1) = [2..<Suc k]"
    using dv(1) Cons.prems by simp
  have ih: "fst (download_all cl vs ?st1) = map (\<lambda>i. Inr (Some i)) [Suc k..<Suc k + length vs] \<and>
    tg_loading (snd (download_all cl vs ?st1)) = tg_loading ?st1 @ zip [Suc k..<Suc k + length vs] vs"
    using Cons.IH[OF keys] Cons.prems by simp
  have upt: "[k..<k + length (v # vs)] = k # [Suc k..<Suc k + length vs]"
    using upt_conv_Cons[of k "Suc k + length vs"] by simp
  have "download_all cl (v # vs) st =
      (fst (download_video cl v st) # fst (download_all cl vs ?st1), snd (download_all cl vs ?st1))"
    by (simp add: Let_def)
  then show ?case
    unfolding upt using ih r dv(1) by simp
qed


lemma download_video_first_free_state:
  assumes "2 \<le> i" "i \<le> 32" "i \<notin> set (map fst (tg_loading st))"
    "\<forall>j. 2 \<le> j \<and> j < i \<longrightarrow> j \<in> set (map fst (tg_loading st))"
  shows "snd (download_video cl v st) =
           st\<lparr>tg_loading := tg_loading st @ [(i, v)],
              client_calls := client_calls st @ [DownloadFile (file_id (heap st v)) i]\<rparr>"
proof -
  have "find (\<lambda>i. i \<notin> set (map fst (tg_loading st))) [2..<33] = Some i"
    using assms by (intro find_upt_least) auto
  then show ?thesis
    using assms(3) by (simp add: download_video_def call_def Let_def update_new_key)
qed

text \<open>
  Claim C4. \<open>download_video\<close> takes the first number of 2..32 that is not a key of
  \<open>_loading\<close>, in ascending order, binds the video to it and, when the remote call
  succeeds, returns it. From an empty slot mapping, 31 calls (for any 31 videos, so for
  distinct ones) return 2, 3, ..., 32 in this order and fill the slots in this order;
  one more call returns \<open>None\<close> and changes nothing.
\<close>

theorem download_video_reserves_first_free_slot:
  "(2 \<le> i \<and> i \<le> 32 \<and> i \<notin> set (map fst (tg_loading st)) \<and>
    (\<forall>j. 2 \<le> j \<and> j < i \<longrightarrow> j \<in> set (map fst (tg_loading st))) \<longrightarrow>
      tg_loading (snd (download_video cl v st)) = tg_loading st @ [(i, v)] \<and>
      (\<not> r_error (cl (DownloadFile (file_id (heap st v)) i)) \<longrightarrow>
         fst (download_video cl v st) = Inr (Some i))) \<and>
   (tg_loading st = [] \<and> length vs = 31 \<and> (\<forall>req. \<not> r_error (cl req)) \<longrightarrow>
      fst (download_all cl vs st) = map (\<lambda>i. Inr (Some i)) [2..<33] \<and>
      tg_loading (snd (download_all cl vs st)) = zip [2..<33] vs \<and>
      download_video cl v (snd (download_all cl vs st)) = (Inr None, snd (download_all cl vs st)))"
proof (intro conjI impI)
  assume a: "2 \<le> i \<and> i \<le> 32 \<and> i \<notin> set (map fst (tg_loading st)) \<and>
    (\<forall>j. 2 \<le> j \<and> j < i \<longrightarrow> j \<in> set (map fst (tg_loading st)))"
  then show "tg_loading (snd (download_video cl v st)) = tg_loading st @ [(i, v)]"
    using download_video_first_free(1)[of i st cl v] by blast
  assume "\<not> r_error (cl (DownloadFile (file_id (heap st v)) i))"
  with a show "fst (download_video cl v st) = Inr (Some i)"
    using download_video_first_free(4)[of i st cl v] by blast
next
  assume a: "tg_loading st = [] \<and> length vs = 31 \<and> (\<forall>req. \<not> r_error (cl req))"
  then have keys: "map fst (tg_loading st) = [2..<2]" by simp
  have fill: "fst (download_all cl vs st) = map (\<lambda>i. Inr (Some i)) [2..<2 + length vs] \<and>
      tg_loading (snd (download_all cl vs st)) = tg_loading st @ zip [2..<2 + length vs] vs"
    using a by (intro download_all_fills[OF _ keys]) auto
  have len: "2 + length vs = 33" using a by simp
  from fill show r: "fst (download_all cl vs st) = map (\<lambda>i. Inr (Some i)) [2..<33]"
    unfolding len by blast
  from fill a show l: "tg_loading (snd (download_all cl vs st)) = zip [2..<33] vs"
    unfolding len by simp
  have "length [2..<33::nat] = length vs" using a by simp
  then have "map fst (zip [2..<33] vs) = [2..<33]"
    by (rule map_fst_zip)
  then have "set (map fst (tg_loading (snd (download_all cl vs st)))) = {2..<33}"
    unfolding l by (simp only: set_upt)
  then have "\<forall>j. 2 \<le> j \<and> j \<le> 32 \<longrightarrow> j \<in> set (map fst (tg_loading (snd (download_all cl vs st))))"
    by (simp only: atLeastLessThan_iff) arith
  then show "download_video cl v (snd (download_all cl vs st)) = (Inr None, snd (download_all cl vs st))"
    by (rule download_video_full)
qed

theorem download_video_reserves_first_free_slot_witness:
  "(2 \<le> (2::nat) \<and> (2::nat) \<le> 32 \<and> 2 \<notin> set (map fst (tg_loading init_state)) \<and>
    \<not> r_error (ok_client (DownloadFile (file_id (heap init_state 0)) 2))) \<and>
   tg_loading (snd (download_video ok_client 0 init_state)) = [(2, 0)] \<and>
   fst (download_video ok_client 0 init_state) = Inr (Some 2) \<and>
   (tg_loading init_state = [] \<and> length [0..<31] = 31 \<and> (\<forall>req. \<not> r_error (ok_client req))) \<and>
   fst (download_all ok_client [0..<31] init_state) = map (\<lambda>i. Inr (Some i)) [2..<33] \<and>
   tg_loading (snd (download_all ok_client [0..<31] init_state)) = zip [2..<33] [0..<31] \<and>
   download_video ok_client 31 (snd (download_all ok_client [0..<31] init_state))
     = (Inr None, snd (download_all ok_client [0..<31] init_state))"
  using download_video_reserves_first_free_slot[of 2 init_state ok_client 0 "[0..<31]"]
        download_video_reserves_first_free_slot[of 2 init_state ok_client 31 "[0..<31]"]
  by (simp add: init_state_def ok_client_def)

lemma find_SomeD:
  "find P xs = Some x \<Longrightarrow> P x \<and> x \<in> set xs"
  by (auto simp: find_Some_iff)

lemma call_keeps [simp]:
  "tg_loading (snd (call cl req st)) = tg_loading st"
  "heap (snd (call cl req st)) = heap st"
  "tg_videos (snd (call cl req st)) = tg_videos st"
  by (simp_all add: call_def Let_def)

lemma remove_from_queue_loading:
  "tg_loading (remove_from_queue v st) = tg_loading st \<or>
   (\<exists>k. tg_loading (remove_from_queue v st) = AList.delete k (tg_loading st))"
  by (auto simp: remove_from_queue_def split: option.splits)

lemma download_video_loading:
  "tg_loading (snd (download_video cl v st)) = tg_loading st \<or>
   (\<exists>i. 2 \<le> i \<and> i \<le> 32 \<and> i \<notin> set (map fst (tg_loading st)) \<and>
        tg_loading (snd (download_video cl v st)) = tg_loading st @ [(i, v)])"
proof (cases "find (\<lambda>i. i \<notin> set (map fst (tg_loading st))) [2..<33]")
  case None
  then show ?thesis by (simp add: download_video_def)
next
  case (Some i)
  from find_SomeD[OF Some] have i: "i \<notin> set (map fst (tg_loading st))" "2 \<le> i" "i \<le> 32"
    by auto
  have "tg_loading (snd (download_video cl v st)) = tg_loading st @ [(i, v)]"
    using Some i(1) by (simp add: download_video_def call_def Let_def update_new_key)
  with i show ?thesis by blast
qed


subsection \<open>A failing download call\<close>

text \<open>
  Claim C1 says that the slot is released when the remote call of \<open>download_video\<close>
  fails. With no slot taken and a remote that fails, the call raises and slot 2 stays
  bound to the video: the slot mapping is not the one before the call.
\<close>

theorem download_video_failure_keeps_slot_counterexample:
  "fst (download_video (failing_client ''timeout'') 0 init_state)
     = Inl (TgException ''cant downloadFile: timeout'') \<and>
   tg_loading init_state = [] \<and>
   tg_loading (snd (download_video (failing_client ''timeout'') 0 init_state)) = [(2, 0)]"
proof -
  have free: "2 \<le> (2::nat)" "(2::nat) \<le> 32" "2 \<notin> set (map fst (tg_loading init_state))"
    "\<forall>j. 2 \<le> j \<and> j < 2 \<longrightarrow> j \<in> set (map fst (tg_loading init_state))"
    by (simp_all add: init_state_def)
  have err: "r_error (failing_client ''timeout'' (DownloadFile (file_id (heap init_state 0)) 2))"
    by (simp add: failing_client_def)
  have info: "r_error_info (failing_client ''timeout'' (DownloadFile (file_id (heap init_state 0)) 2))
      = ''timeout''"
    by (simp add: failing_client_def)
  have empty: "tg_loading init_state = []"
    by (simp add: init_state_def)
  show ?thesis
    using download_video_first_free(1)[OF free, of "failing_client ''timeout''" 0]
      download_video_first_free(5)[OF free, of "failing_client ''timeout''" 0] err info empty
    by simp
qed

text \<open>
  Claim C1, as the code has it. When \<open>i\<close> is the first free slot and the remote call
  fails, \<open>download_video\<close> raises \<open>TgException\<close> with the method and the error
  information of the remote, and the slot stays bound: the slot mapping is the one
  before the call with \<open>i\<close> bound to the video, the request is recorded, and nothing
  else has changed.
\<close>

theorem download_video_failure_leaves_slot_bound:
  assumes "2 \<le> i" and "i \<le> 32" and "i \<notin> set (map fst (tg_loading st))"
    and "\<forall>j. 2 \<le> j \<and> j < i \<longrightarrow> j \<in> set (map fst (tg_loading st))"
    and "r_error (cl (DownloadFile (file_id (heap st v)) i))"
  shows "download_video cl v st =
    (Inl (TgException (''cant downloadFile: '' @
            r_error_info (cl (DownloadFile (file_id (heap st v)) i)))),
     st\<lparr>tg_loading := tg_loading st @ [(i, v)],
        client_calls := client_calls st @ [DownloadFile (file_id (heap st v)) i]\<rparr>)"
proof -
  have "fst (download_video cl v st) = Inl (TgException (''cant downloadFile: '' @
            r_error_info (cl (DownloadFile (file_id (heap st v)) i))))"
    using download_video_first_free(5)[OF assms(1-4), of cl v] assms(5) by blast
  moreover have "snd (download_video cl v st) = st\<lparr>tg_loading := tg_loading st @ [(i, v)],
        client_calls := client_calls st @ [DownloadFile (file_id (heap st v)) i]\<rparr>"
    using assms(1-4) by (rule download_video_first_free_state)
  ultimately show ?thesis
    by (metis prod.collapse)
qed


theorem download_video_failure_leaves_slot_bound_witness:
  "2 \<le> (2::nat) \<and> (2::nat) \<le> 32 \<and> 2 \<notin> set (map fst (tg_loading init_state)) \<and>
   r_error (failing_client ''timeout'' (DownloadFile (file_id (heap init_state 0)) 2)) \<and>
   download_video (failing_client ''timeout'') 0 init_state =
    (Inl (TgException ''cant downloadFile: timeout''),
     init_state\<lparr>tg_loading := tg_loading init_state @ [(2, 0)],
        client_calls := client_calls init_state @ [DownloadFile (file_id (heap init_state 0)) 2]\<rparr>)"
proof -
  have free: "2 \<le> (2::nat)" "(2::nat) \<le> 32" "2 \<notin> set (map fst (tg_loading init_state))"
    "\<forall>j. 2 \<le> j \<and> j < 2 \<longrightarrow> j \<in> set (map fst (tg_loading init_state))"
    by (simp_all add: init_state_def)
  have err: "r_error (failing_client ''timeout'' (DownloadFile (file_id (heap init_state 0)) 2))"
    by (simp add: failing_client_def)
  have info: "r_error_info (failing_client ''timeout'' (DownloadFile (file_id (heap init_state 0)) 2))
      = ''timeout''"
    by (simp add: failing_client_def)
  have "download_video (failing_client ''timeout'') 0 init_state =
    (Inl (TgException (''cant downloadFile: '' @ ''timeout'')),
     init_state\<lparr>tg_loading := tg_loading init_state @ [(2, 0)],
        client_calls := client_calls init_state @ [DownloadFile (file_id (heap init_state 0)) 2]\<rparr>)"
    using download_video_failure_leaves_slot_bound[of 2 init_state "failing_client ''timeout''" 0]
      free err info by simp
  then show ?thesis
    using free err by simp
qed


subsection \<open>Sequences of calls\<close>

lemma delete_keeps_distinct:
  "distinct (map fst al) \<Longrightarrow> distinct (map fst (AList.delete k al))"
  "distinct (map snd al) \<Longrightarrow> distinct (map snd (AList.delete k al))"
  "set (map fst (AList.delete k al)) \<subseteq> set (map fst al)"
proof -
  show "distinct (map fst al) \<Longrightarrow> distinct (map fst (AList.delete k al))"
    by (rule distinct_delete)
  show "distinct (map snd al) \<Longrightarrow> distinct (map snd (AList.delete k al))"
    by (simp add: AList.delete_eq distinct_map_filter)
  show "set (map fst (AList.delete k al)) \<subseteq> set (map fst al)"
    by (induction al) auto
qed

lemma remove_from_queue_keeps:
  "distinct (map fst (tg_loading st)) \<Longrightarrow> distinct (map fst (tg_loading (remove_from_queue v st)))"
  "distinct (map snd (tg_loading st)) \<Longrightarrow> distinct (map snd (tg_loading (remove_from_queue v st)))"
  "set (map fst (tg_loading (remove_from_queue v st))) \<subseteq> set (map fst (tg_loading st))"
proof -
  show "distinct (map fst (tg_loading st)) \<Longrightarrow> distinct (map fst (tg_loading (remove_from_queue v st)))"
    using remove_from_queue_loading[of v st] delete_keeps_distinct(1) by metis
  show "distinct (map snd (tg_loading st)) \<Longrightarrow> distinct (map snd (tg_loading (remove_from_queue v st)))"
    using remove_from_queue_loading[of v st] delete_keeps_distinct(2) by metis
  show "set (map fst (tg_loading (remove_from_queue v st))) \<subseteq> set (map fst (tg_loading st))"
    using remove_from_queue_loading[of v st] delete_keeps_distinct(3)[of _ "tg_loading st"]
    by (metis order_refl)
qed

lemma cancel_download_video_loading [simp]:
  "tg_loading (snd (cancel_download_video cl v st)) = tg_loading (remove_from_queue v st)"
  by (simp add: cancel_download_video_def call_def Let_def)

lemma slot_step_keys:
  assumes "distinct (map fst (tg_loading st))"
  shows "distinct (map fst (tg_loading (slot_step c st)))"
proof (cases c)
  case (DownloadVideo cl v)
  with assms download_video_loading[of cl v st] show ?thesis by auto
next
  case (CancelDownloadVideo cl v)
  with assms remove_from_queue_keeps(1) show ?thesis by simp
next
  case (RemoveFromQueue v)
  with assms remove_from_queue_keeps(1) show ?thesis by simp
qed

lemma slot_step_range:
  assumes "set (map fst (tg_loading st)) \<subseteq> {2..32}"
  shows "set (map fst (tg_loading (slot_step c st))) \<subseteq> {2..32}"
proof (cases c)
  case (DownloadVideo cl v)
  from download_video_loading[of cl v st]
  have "set (map fst (tg_loading (snd (download_video cl v st)))) \<subseteq> {2..32}"
  proof
    assume "tg_loading (snd (download_video cl v st)) = tg_loading st"
    with assms show ?thesis by simp
  next
    assume "\<exists>i. 2 \<le> i \<and> i \<le> 32 \<and> i \<notin> set (map fst (tg_loading st)) \<and>
        tg_loading (snd (download_video cl v st)) = tg_loading st @ [(i, v)]"
    then obtain i where i: "2 \<le> i" "i \<le> 32"
      "tg_loading (snd (download_video cl v st)) = tg_loading st @ [(i, v)]" by blast
    have eq: "set (map fst (tg_loading st @ [(i, v)])) = insert i (set (map fst (tg_loading st)))"
      by simp
    have "i \<in> {2..32}" using i by simp
    then have "insert i (set (map fst (tg_loading st))) \<subseteq> {2..32}"
      using assms by (rule insert_subsetI)
    then show ?thesis unfolding i(3) eq .
  qed
  with DownloadVideo show ?thesis by simp
next
  case (CancelDownloadVideo cl v)
  from remove_from_queue_keeps(3)[of v st] assms
  have "set (map fst (tg_loading (remove_from_queue v st))) \<subseteq> {2..32}"
    by (rule subset_trans)
  with CancelDownloadVideo show ?thesis by simp
next
  case (RemoveFromQueue v)
  from remove_from_queue_keeps(3)[of v st] assms
  have "set (map fst (tg_loading (remove_from_queue v st))) \<subseteq> {2..32}"
    by (rule subset_trans)
  with RemoveFromQueue show ?thesis by simp
qed

lemma slot_step_items:
  assumes "distinct (map snd (tg_loading st))"
    and "case c of DownloadVideo cl v \<Rightarrow> v \<notin> set (map snd (tg_loading st)) | _ \<Rightarrow> True"
  shows "distinct (map snd (tg_loading (slot_step c st)))"
proof (cases c)
  case (DownloadVideo cl v)
  with assms download_video_loading[of cl v st] show ?thesis by auto
next
  case (CancelDownloadVideo cl v)
  with assms remove_from_queue_keeps(2) show ?thesis by simp
next
  case (RemoveFromQueue v)
  with assms remove_from_queue_keeps(2) show ?thesis by simp
qed

lemma slot_run_keys:
  "distinct (map fst (tg_loading st)) \<Longrightarrow> distinct (map fst (tg_loading (slot_run cs st)))"
  by (induction cs arbitrary: st) (simp_all add: slot_step_keys)

lemma slot_run_range:
  "set (map fst (tg_loading st)) \<subseteq> {2..32} \<Longrightarrow>
   set (map fst (tg_loading (slot_run cs st))) \<subseteq> {2..32}"
proof (induction cs arbitrary: st)
  case Nil
  then show ?case by simp
next
  case (Cons c cs)
  from Cons.IH[OF slot_step_range[OF Cons.prems, of c]] show ?case by simp
qed

lemma slot_run_items:
  "distinct (map snd (tg_loading st)) \<Longrightarrow> no_restart cs st \<Longrightarrow>
   distinct (map snd (tg_loading (slot_run cs st)))"
  by (induction cs arbitrary: st) (simp_all add: slot_step_items)

text \<open>
  Claim C8, as the code has it. After every sequence of \<open>download_video\<close>,
  \<open>cancel_download_video\<close> and \<open>_remove_from_queue\<close> calls, each slot number is
  bound to at most one video and the slot numbers lie in 2..32. Each video holds at
  most one slot provided that no \<open>download_video\<close> of the sequence is for a video that
  holds a slot at that moment: \<open>download_video\<close> does not look for the video among
  the slots.
\<close>

theorem slot_run_one_item_per_slot:
  "(distinct (map fst (tg_loading st)) \<longrightarrow> distinct (map fst (tg_loading (slot_run cs st)))) \<and>
   (set (map fst (tg_loading st)) \<subseteq> {2..32} \<longrightarrow>
      set (map fst (tg_loading (slot_run cs st))) \<subseteq> {2..32}) \<and>
   (distinct (map snd (tg_loading st)) \<and> no_restart cs st \<longrightarrow>
      distinct (map snd (tg_loading (slot_run cs st))))"
  using slot_run_keys slot_run_range slot_run_items by blast

text \<open>
  Claim C8 says that a video holds at most one slot also when \<open>download_video\<close> is
  called twice for it. The second call binds slot 3 to the video that holds slot 2.
\<close>

lemma download_twice:
  "tg_loading (slot_run [DownloadVideo ok_client 0, DownloadVideo ok_client 0] init_state)
     = [(2, 0), (3, 0)]"
proof -
  let ?st1 = "snd (download_video ok_client 0 init_state)"
  have free: "2 \<le> (2::nat)" "(2::nat) \<le> 32" "2 \<notin> set (map fst (tg_loading init_state))"
    "\<forall>j. 2 \<le> j \<and> j < 2 \<longrightarrow> j \<in> set (map fst (tg_loading init_state))"
    by (simp_all add: init_state_def)
  have l1: "tg_loading ?st1 = [(2, 0)]"
    using download_video_first_free(1)[OF free, of ok_client 0] by (simp add: init_state_def)
  have free': "2 \<le> (3::nat)" "(3::nat) \<le> 32" "3 \<notin> set (map fst (tg_loading ?st1))"
    "\<forall>j. 2 \<le> j \<and> j < 3 \<longrightarrow> j \<in> set (map fst (tg_loading ?st1))"
    unfolding l1 by auto
  show ?thesis
    using download_video_first_free(1)[OF free', of ok_client 0] l1 by simp
qed

theorem download_video_twice_counterexample:
  "tg_loading (slot_run [DownloadVideo ok_client 0, DownloadVideo ok_client 0] init_state)
     = [(2, 0), (3, 0)] \<and>
   \<not> distinct (map snd
         (tg_loading (slot_run [DownloadVideo ok_client 0, DownloadVideo ok_client 0] init_state)))"
  using download_twice by simp

theorem slot_run_one_item_per_slot_witness:
  "distinct (map fst (tg_loading init_state)) \<and>
   set (map fst (tg_loading init_state)) \<subseteq> {2..32} \<and>
   distinct (map snd (tg_loading init_state)) \<and>
   no_restart [DownloadVideo ok_client 0, CancelDownloadVideo ok_client 0,
               DownloadVideo (failing_client ''busy'') 0, RemoveFromQueue 0] init_state \<and>
   distinct (map fst (tg_loading (slot_run [DownloadVideo ok_client 0, CancelDownloadVideo ok_client 0,
               DownloadVideo (failing_client ''busy'') 0, RemoveFromQueue 0] init_state))) \<and>
   set (map fst (tg_loading (slot_run [DownloadVideo ok_client 0, CancelDownloadVideo ok_client 0,
               DownloadVideo (failing_client ''busy'') 0, RemoveFromQueue 0] init_state))) \<subseteq> {2..32} \<and>
   distinct (map snd (tg_loading (slot_run [DownloadVideo ok_client 0, CancelDownloadVideo ok_client 0,
               DownloadVideo (failing_client ''busy'') 0, RemoveFromQueue 0] init_state)))"
proof -
  let ?cs = "[DownloadVideo ok_client 0, CancelDownloadVideo ok_client 0,
               DownloadVideo (failing_client ''busy'') 0, RemoveFromQueue 0]"
  have free: "2 \<le> (2::nat)" "(2::nat) \<le> 32" "2 \<notin> set (map fst (tg_loading init_state))"
    "\<forall>j. 2 \<le> j \<and> j < 2 \<longrightarrow> j \<in> set (map fst (tg_loading init_state))"
    by (simp_all add: init_state_def)
  have e: "tg_loading init_state = []" by (simp add: init_state_def)
  have l1: "tg_loading (snd (download_video ok_client 0 init_state)) = [(2, 0)]"
    using download_video_first_free(1)[OF free, of ok_client 0] e by simp
  have l2: "tg_loading (remove_from_queue 0 (snd (download_video ok_client 0 init_state))) = []"
    using l1 by (simp add: remove_from_queue_def)
  have nr: "no_restart ?cs init_state"
    using e l2 by simp
  from slot_run_one_item_per_slot[of init_state ?cs] e nr show ?thesis
    by simp
qed

section \<open>Properties of the update handler\<close>

lemma notify_keeps [simp]:
  "heap (snd (notify run v cbs st)) = heap st"
  "tg_loading (snd (notify run v cbs st)) = tg_loading st"
  "tg_videos (snd (notify run v cbs st)) = tg_videos st"
  "tg_download_callbacks (snd (notify run v cbs st)) = tg_download_callbacks st"
  "client_calls (snd (notify run v cbs st)) = client_calls st"
  "next_ref (snd (notify run v cbs st)) = next_ref st"
  by (induction cbs arbitrary: st; simp add: Let_def split: option.splits)+

lemma notify_notified:
  "notified (snd (notify run v cbs st)) =
     notified st @ map (\<lambda>cb. \<lparr>n_callback = cb, n_video = heap st v, n_loading = tg_loading st\<rparr>)
                       (called run (heap st v) cbs)"
  by (induction cbs arbitrary: st) (simp_all add: Let_def split: option.splits)

lemma notify_raise:
  "\<forall>x \<in> set xs. run x (heap st v) = None \<Longrightarrow> run cb (heap st v) = Some e \<Longrightarrow>
   fst (notify run v (xs @ cb # ys) st) = Inl e"
  by (induction xs arbitrary: st) (simp_all add: Let_def)

lemma called_raise:
  "\<forall>x \<in> set xs. run x v = None \<Longrightarrow> run cb v = Some e \<Longrightarrow>
   called run v (xs @ cb # ys) = xs @ [cb]"
  by (induction xs) simp_all

lemma notify_return:
  "\<forall>x \<in> set cbs. run x (heap st v) = None \<Longrightarrow> fst (notify run v cbs st) = Inr ()"
  by (induction cbs arbitrary: st) (simp_all add: Let_def)

lemma called_return:
  "\<forall>x \<in> set cbs. run x v = None \<Longrightarrow> called run v cbs = cbs"
  by (induction cbs) simp_all

lemma remove_from_queue_keeps_rest [simp]:
  "heap (remove_from_queue v st) = heap st"
  "tg_videos (remove_from_queue v st) = tg_videos st"
  "tg_download_callbacks (remove_from_queue v st) = tg_download_callbacks st"
  "notified (remove_from_queue v st) = notified st"
  "client_calls (remove_from_queue v st) = client_calls st"
  "next_ref (remove_from_queue v st) = next_ref st"
  by (simp_all add: remove_from_queue_def split: option.splits prod.splits)

text \<open>The handler for the event of a tracked file, step by step.\<close>

lemma update_file_handler_tracked:
  assumes "map_of (tg_videos st) (f_id (ev_file ev)) = Some r"
  shows "update_file_handler run ev st =
     (let st2 = st\<lparr>heap := (heap st)(r := updated (f_local (ev_file ev)) (heap st r))\<rparr>;
          st3 = (if completed (updated (f_local (ev_file ev)) (heap st r))
                 then remove_from_queue r st2 else st2)
      in notify run r (tg_download_callbacks st) st3)"
  using assms by (simp add: update_file_handler_def updated_def Let_def)

lemma update_file_handler_untracked:
  assumes "map_of (tg_videos st) (f_id (ev_file ev)) = None"
  shows "update_file_handler run ev st = (Inr (), st)"
  using assms by (simp add: update_file_handler_def Let_def)


lemma update_file_handler_heap:
  assumes "map_of (tg_videos st) (f_id (ev_file ev)) = Some r"
  shows "heap (snd (update_file_handler run ev st)) =
           (heap st)(r := updated (f_local (ev_file ev)) (heap st r))"
    and "tg_videos (snd (update_file_handler run ev st)) = tg_videos st"
    and "tg_download_callbacks (snd (update_file_handler run ev st)) = tg_download_callbacks st"
  by (simp_all add: update_file_handler_tracked[OF assms] Let_def)

lemma update_file_handler_loading:
  assumes "map_of (tg_videos st) (f_id (ev_file ev)) = Some r"
  shows "tg_loading (snd (update_file_handler run ev st)) =
           (if completed (updated (f_local (ev_file ev)) (heap st r))
            then tg_loading (remove_from_queue r
                   (st\<lparr>heap := (heap st)(r := updated (f_local (ev_file ev)) (heap st r))\<rparr>))
            else tg_loading st)"
  by (simp add: update_file_handler_tracked[OF assms] Let_def)

lemma update_file_handler_notified:
  assumes "map_of (tg_videos st) (f_id (ev_file ev)) = Some r"
  shows "notified (snd (update_file_handler run ev st)) =
     notified st @
     map (\<lambda>cb. \<lparr>n_callback = cb, n_video = updated (f_local (ev_file ev)) (heap st r),
                n_loading = tg_loading (snd (update_file_handler run ev st))\<rparr>)
       (called run (updated (f_local (ev_file ev)) (heap st r)) (tg_download_callbacks st))"
  by (simp add: update_file_handler_tracked[OF assms] Let_def notify_notified)


lemma update_file_handler_raise:
  assumes "map_of (tg_videos st) (f_id (ev_file ev)) = Some r"
    and "tg_download_callbacks st = xs @ cb # ys"
    and "\<forall>x \<in> set xs. run x (updated (f_local (ev_file ev)) (heap st r)) = None"
    and "run cb (updated (f_local (ev_file ev)) (heap st r)) = Some e"
  shows "fst (update_file_handler run ev st) = Inl e"
  using assms(2-4)
  by (simp add: update_file_handler_tracked[OF assms(1)] Let_def notify_raise)

lemma update_file_handler_return:
  assumes "map_of (tg_videos st) (f_id (ev_file ev)) = Some r"
    and "\<forall>x \<in> set (tg_download_callbacks st).
           run x (updated (f_local (ev_file ev)) (heap st r)) = None"
  shows "fst (update_file_handler run ev st) = Inr ()"
  using assms(2)
  by (simp add: update_file_handler_tracked[OF assms(1)] Let_def notify_return)

text \<open>
  Claim C3, as the code has it. For the event of a tracked file, the callbacks are
  called in the order of their registration with the updated video. When one of them
  raises, its exception leaves \<open>_update_file_handler\<close> and the callbacks registered
  after it are not called: the calls made are those up to it, it included. When none
  raises, all are called and the handler returns.
\<close>

theorem update_file_handler_stops_at_raising_callback:
  assumes "map_of (tg_videos st) (f_id (ev_file ev)) = Some r"
  shows
   "(tg_download_callbacks st = xs @ cb # ys \<and>
     (\<forall>x \<in> set xs. run x (updated (f_local (ev_file ev)) (heap st r)) = None) \<and>
     run cb (updated (f_local (ev_file ev)) (heap st r)) = Some e \<longrightarrow>
       fst (update_file_handler run ev st) = Inl e \<and>
       notified (snd (update_file_handler run ev st)) =
         notified st @
         map (\<lambda>c. \<lparr>n_callback = c, n_video = updated (f_local (ev_file ev)) (heap st r),
                   n_loading = tg_loading (snd (update_file_handler run ev st))\<rparr>) (xs @ [cb])) \<and>
    ((\<forall>x \<in> set (tg_download_callbacks st).
         run x (updated (f_local (ev_file ev)) (heap st r)) = None) \<longrightarrow>
       fst (update_file_handler run ev st) = Inr () \<and>
       notified (snd (update_file_handler run ev st)) =
         notified st @
         map (\<lambda>c. \<lparr>n_callback = c, n_video = updated (f_local (ev_file ev)) (heap st r),
                   n_loading = tg_loading (snd (update_file_handler run ev st))\<rparr>)
           (tg_download_callbacks st))"
proof (intro conjI impI)
  assume a: "tg_download_callbacks st = xs @ cb # ys \<and>
     (\<forall>x \<in> set xs. run x (updated (f_local (ev_file ev)) (heap st r)) = None) \<and>
     run cb (updated (f_local (ev_file ev)) (heap st r)) = Some e"
  then show "fst (update_file_handler run ev st) = Inl e"
    using update_file_handler_raise[OF assms, of xs cb ys run e] by blast
  from a have "called run (updated (f_local (ev_file ev)) (heap st r)) (tg_download_callbacks st)
      = xs @ [cb]"
    by (simp add: called_raise)
  then show "notified (snd (update_file_handler run ev st)) =
         notified st @
         map (\<lambda>c. \<lparr>n_callback = c, n_video = updated (f_local (ev_file ev)) (heap st r),
                   n_loading = tg_loading (snd (update_file_handler run ev st))\<rparr>) (xs @ [cb])"
    using update_file_handler_notified[OF assms, of run] by simp
next
  assume a: "\<forall>x \<in> set (tg_download_callbacks st).
         run x (updated (f_local (ev_file ev)) (heap st r)) = None"
  then show "fst (update_file_handler run ev st) = Inr ()"
    by (rule update_file_handler_return[OF assms])
  from a have "called run (updated (f_local (ev_file ev)) (heap st r)) (tg_download_callbacks st)
      = tg_download_callbacks st"
    by (rule called_return)
  then show "notified (snd (update_file_handler run ev st)) =
         notified st @
         map (\<lambda>c. \<lparr>n_callback = c, n_video = updated (f_local (ev_file ev)) (heap st r),
                   n_loading = tg_loading (snd (update_file_handler run ev st))\<rparr>)
           (tg_download_callbacks st)"
    using update_file_handler_notified[OF assms, of run] by simp
qed

lemma example_tracked:
  "map_of (tg_videos example_state) (f_id (ev_file (example_event n))) = Some 0"
  by (simp add: example_state_def example_event_def)

lemma example_callbacks:
  "tg_download_callbacks example_state = [1] @ 2 # [3]"
  by (simp add: example_state_def)

theorem update_file_handler_stops_at_raising_callback_witness:
  "map_of (tg_videos example_state) (f_id (ev_file (example_event 200))) = Some 0 \<and>
   tg_download_callbacks example_state = [1] @ 2 # [3] \<and>
   fst (update_file_handler second_raises (example_event 200) example_state)
     = Inl (CallbackError ''boom'') \<and>
   map n_callback (notified (snd (update_file_handler second_raises (example_event 200) example_state)))
     = [1, 2] \<and>
   fst (update_file_handler all_return (example_event 200) example_state) = Inr () \<and>
   map n_callback (notified (snd (update_file_handler all_return (example_event 200) example_state)))
     = [1, 2, 3]"
proof -
  have n: "notified example_state = []"
    by (simp add: example_state_def)
  have r: "\<forall>x \<in> set [1]. second_raises x
      (updated (f_local (ev_file (example_event 200))) (heap example_state 0)) = None"
    "second_raises 2 (updated (f_local (ev_file (example_event 200))) (heap example_state 0))
      = Some (CallbackError ''boom'')"
    by (simp_all add: second_raises_def)
  have a: "\<forall>x \<in> set (tg_download_callbacks example_state). all_return x
      (updated (f_local (ev_file (example_event 200))) (heap example_state 0)) = None"
    by (simp add: all_return_def)
  note t1 = update_file_handler_stops_at_raising_callback
      [where st = example_state and ev = "example_event 200" and r = 0 and xs = "[1]" and cb = 2
         and ys = "[3]" and run = second_raises and e = "CallbackError ''boom''",
       OF example_tracked]
  note t2 = update_file_handler_stops_at_raising_callback
      [where st = example_state and ev = "example_event 200" and r = 0 and xs = "[1]" and cb = 2
         and ys = "[3]" and run = all_return and e = "CallbackError ''boom''",
       OF example_tracked]
  have "fst (update_file_handler second_raises (example_event 200) example_state)
     = Inl (CallbackError ''boom'')"
    "map n_callback (notified (snd (update_file_handler second_raises (example_event 200) example_state)))
     = [1, 2]"
    using t1 example_callbacks r n by (simp_all add: comp_def)
  moreover have "fst (update_file_handler all_return (example_event 200) example_state) = Inr ()"
    "map n_callback (notified (snd (update_file_handler all_return (example_event 200) example_state)))
     = [1, 2, 3]"
    using t2 example_callbacks a n by (simp_all add: comp_def)
  ultimately show ?thesis
    using example_tracked example_callbacks by simp
qed

text \<open>
  Claim C3 says that the callbacks registered after a raising one are still called.
  With the callbacks 1, 2, 3, of which 2 raises, the handler raises that exception and
  has called 1 and 2 only.
\<close>

theorem update_file_handler_raising_callback_counterexample:
  "tg_download_callbacks example_state = [1, 2, 3] \<and>
   second_raises 2 (updated (f_local (ev_file (example_event 200))) (heap example_state 0))
     = Some (CallbackError ''boom'') \<and>
   fst (update_file_handler second_raises (example_event 200) example_state)
     = Inl (CallbackError ''boom'') \<and>
   map n_callback (notified (snd (update_file_handler second_raises (example_event 200) example_state)))
     = [1, 2]"
proof -
  have n: "notified example_state = []"
    by (simp add: example_state_def)
  have r: "\<forall>x \<in> set [1]. second_raises x
      (updated (f_local (ev_file (example_event 200))) (heap example_state 0)) = None"
    "second_raises 2 (updated (f_local (ev_file (example_event 200))) (heap example_state 0))
      = Some (CallbackError ''boom'')"
    by (simp_all add: second_raises_def)
  have "fst (update_file_handler second_raises (example_event 200) example_state)
     = Inl (CallbackError ''boom'')"
    using update_file_handler_raise[where st = example_state and ev = "example_event 200"
        and r = 0 and xs = "[1]" and cb = 2 and ys = "[3]" and run = second_raises
        and e = "CallbackError ''boom''", OF example_tracked example_callbacks] r
    by blast
  moreover have "called second_raises
      (updated (f_local (ev_file (example_event 200))) (heap example_state 0))
      (tg_download_callbacks example_state) = [1, 2]"
    unfolding example_callbacks
    using called_raise[where xs = "[1]" and cb = 2 and ys = "[3]" and run = second_raises
        and e = "CallbackError ''boom''"
        and v = "updated (f_local (ev_file (example_event 200))) (heap example_state 0)"] r
    by simp
  then have "map n_callback (notified (snd (update_file_handler second_raises (example_event 200) example_state)))
     = [1, 2]"
    using update_file_handler_notified[where st = example_state and ev = "example_event 200"
        and r = 0 and run = second_raises, OF example_tracked] n
    by (simp add: comp_def)
  ultimately show ?thesis
    using r(2) example_callbacks by simp
qed

subsection \<open>Completion of a download\<close>

lemma find_only:
  assumes "distinct (map fst l)" and "(s, r) \<in> set l"
    and "\<forall>(k, v) \<in> set l. P (k, v) \<longleftrightarrow> k = s"
  shows "find P l = Some (s, r)"
  using assms
proof (induction l)
  case Nil
  then show ?case by simp
next
  case (Cons a l)
  obtain k v where a: "a = (k, v)" by (cases a)
  show ?case
  proof (cases "k = s")
    case True
    with Cons.prems a have "v = r"
      by (auto simp: image_iff)
    with True a Cons.prems(3) show ?thesis by simp
  next
    case False
    with Cons.prems a have "find P l = Some (s, r)"
      by (intro Cons.IH) auto
    with False a Cons.prems(3) show ?thesis by simp
  qed
qed

lemma updated_fields [simp]:
  "file_id (updated lf v) = file_id v"
  "expected_size (updated lf v) = expected_size v"
  "downloaded_size (updated lf v) = lf_downloaded_size lf"
  "message_id (updated lf v) = message_id v"
  by (simp_all add: updated_def)

lemma remove_from_queue_holds_slot:
  assumes "holds_slot st fid r s" and "file_id v' = file_id (heap st r)"
  shows "tg_loading (remove_from_queue r (st\<lparr>heap := (heap st)(r := v')\<rparr>))
           = AList.delete s (tg_loading st)"
proof -
  let ?P = "\<lambda>(k, v). ((heap st)(r := v')) v = ((heap st)(r := v')) r"
  from assms(1) have d: "distinct (map fst (tg_loading st))" and m: "(s, r) \<in> set (tg_loading st)"
    and o: "\<forall>(k, v) \<in> set (tg_loading st). k \<noteq> s \<longrightarrow> file_id (heap st v) \<noteq> file_id (heap st r)"
    by (simp_all add: holds_slot_def)
  have key: "((heap st)(r := v')) v = ((heap st)(r := v')) r \<longleftrightarrow> k = s"
    if kv: "(k, v) \<in> set (tg_loading st)" for k v
  proof
    assume p: "((heap st)(r := v')) v = ((heap st)(r := v')) r"
    show "k = s"
    proof (rule ccontr)
      assume "k \<noteq> s"
      with o kv have ne: "file_id (heap st v) \<noteq> file_id (heap st r)" by blast
      then have "v \<noteq> r" by auto
      with p have "heap st v = v'" by simp
      with ne assms(2) show False by simp
    qed
  next
    assume "k = s"
    with d m kv have "v = r"
      by (metis eq_key_imp_eq_value)
    then show "((heap st)(r := v')) v = ((heap st)(r := v')) r" by simp
  qed
  then have "\<forall>(k, v) \<in> set (tg_loading st). ?P (k, v) \<longleftrightarrow> k = s"
    by (auto simp del: fun_upd_apply)
  from find_only[OF d m this] have "find ?P (tg_loading st) = Some (s, r)" .
  then show ?thesis
    by (simp add: remove_from_queue_def)
qed

lemma update_file_handler_holds_slot:
  assumes "holds_slot st fid r s" and "f_id (ev_file ev) = fid"
  shows "tg_loading (snd (update_file_handler run ev st)) =
           (if expected_size (heap st r) = lf_downloaded_size (f_local (ev_file ev))
            then AList.delete s (tg_loading st) else tg_loading st)"
    and "heap (snd (update_file_handler run ev st)) r = updated (f_local (ev_file ev)) (heap st r)"
    and "expected_size (heap st r) \<noteq> lf_downloaded_size (f_local (ev_file ev)) \<Longrightarrow>
           holds_slot (snd (update_file_handler run ev st)) fid r s"
proof -
  from assms have t: "map_of (tg_videos st) (f_id (ev_file ev)) = Some r"
    by (simp add: holds_slot_def)
  show l: "tg_loading (snd (update_file_handler run ev st)) =
           (if expected_size (heap st r) = lf_downloaded_size (f_local (ev_file ev))
            then AList.delete s (tg_loading st) else tg_loading st)"
    using update_file_handler_loading[OF t, of run]
      remove_from_queue_holds_slot[OF assms(1), of "updated (f_local (ev_file ev)) (heap st r)"]
    by (simp add: completed_def)
  show h: "heap (snd (update_file_handler run ev st)) r = updated (f_local (ev_file ev)) (heap st r)"
    using update_file_handler_heap(1)[OF t, of run] by simp
  assume "expected_size (heap st r) \<noteq> lf_downloaded_size (f_local (ev_file ev))"
  with l have l': "tg_loading (snd (update_file_handler run ev st)) = tg_loading st" by simp
  show "holds_slot (snd (update_file_handler run ev st)) fid r s"
    using assms(1) unfolding holds_slot_def l' update_file_handler_heap[OF t]
    by (auto split: if_splits)
qed


lemma delete_key_gone:
  "s \<notin> set (map fst (AList.delete s al))"
  by (induction al) auto

text \<open>
  Claim C5, as the code has it. The video with \<open>expected_size = 1000\<close> that holds
  slot \<open>s\<close> is the object that the catalog has for its file, and no other slot holds
  a video of this file. The events with \<open>downloaded_size\<close> 200, 600 and 1000 are
  handled in this order. The video is not completed after the first and after the
  second event and is completed after the third: one transition, on the third event.
  The slot mapping is unchanged by the first two events, and the third takes slot
  \<open>s\<close> out of it. Each callback called for the third event finds the slot mapping
  without \<open>s\<close> already; those called for the first two find it unchanged.
\<close>

theorem three_events_complete_once:
  assumes "holds_slot st fid r s" and "expected_size (heap st r) = 1000"
    and "f_id (ev_file e1) = fid" and "lf_downloaded_size (f_local (ev_file e1)) = 200"
    and "f_id (ev_file e2) = fid" and "lf_downloaded_size (f_local (ev_file e2)) = 600"
    and "f_id (ev_file e3) = fid" and "lf_downloaded_size (f_local (ev_file e3)) = 1000"
  shows
    "\<not> completed (heap (deliver run [e1] st) r) \<and>
     \<not> completed (heap (deliver run [e1, e2] st) r) \<and>
     completed (heap (deliver run [e1, e2, e3] st) r) \<and>
     tg_loading (deliver run [e1] st) = tg_loading st \<and>
     tg_loading (deliver run [e1, e2] st) = tg_loading st \<and>
     tg_loading (deliver run [e1, e2, e3] st) = AList.delete s (tg_loading st) \<and>
     s \<notin> set (map fst (tg_loading (deliver run [e1, e2, e3] st))) \<and>
     notified (deliver run [e1] st) =
       notified st @
       map (\<lambda>c. \<lparr>n_callback = c, n_video = heap (deliver run [e1] st) r,
                 n_loading = tg_loading st\<rparr>)
         (called run (heap (deliver run [e1] st) r) (tg_download_callbacks st)) \<and>
     notified (deliver run [e1, e2] st) =
       notified (deliver run [e1] st) @
       map (\<lambda>c. \<lparr>n_callback = c, n_video = heap (deliver run [e1, e2] st) r,
                 n_loading = tg_loading st\<rparr>)
         (called run (heap (deliver run [e1, e2] st) r) (tg_download_callbacks st)) \<and>
     notified (deliver run [e1, e2, e3] st) =
       notified (deliver run [e1, e2] st) @
       map (\<lambda>c. \<lparr>n_callback = c, n_video = heap (deliver run [e1, e2, e3] st) r,
                 n_loading = AList.delete s (tg_loading st)\<rparr>)
         (called run (heap (deliver run [e1, e2, e3] st) r) (tg_download_callbacks st))"
proof -
  let ?st1 = "snd (update_file_handler run e1 st)"
  let ?st2 = "snd (update_file_handler run e2 ?st1)"
  let ?st3 = "snd (update_file_handler run e3 ?st2)"
  have ne1: "expected_size (heap st r) \<noteq> lf_downloaded_size (f_local (ev_file e1))"
    using assms(2,4) by simp
  note s1 = update_file_handler_holds_slot[OF assms(1) assms(3), of run]
  have l1: "tg_loading ?st1 = tg_loading st" using s1(1) ne1 by simp
  have h1: "heap ?st1 r = updated (f_local (ev_file e1)) (heap st r)" by (rule s1(2))
  have hs1: "holds_slot ?st1 fid r s" using s1(3) ne1 by blast
  have ex1: "expected_size (heap ?st1 r) = 1000" using h1 assms(2) by simp
  have ne2: "expected_size (heap ?st1 r) \<noteq> lf_downloaded_size (f_local (ev_file e2))"
    using ex1 assms(6) by simp
  note s2 = update_file_handler_holds_slot[OF hs1 assms(5), of run]
  have l2: "tg_loading ?st2 = tg_loading st" using s2(1) ne2 l1 by simp
  have h2: "heap ?st2 r = updated (f_local (ev_file e2)) (heap ?st1 r)" by (rule s2(2))
  have hs2: "holds_slot ?st2 fid r s" using s2(3) ne2 by blast
  have ex2: "expected_size (heap ?st2 r) = 1000" using h2 ex1 by simp
  note s3 = update_file_handler_holds_slot[OF hs2 assms(7), of run]
  have l3: "tg_loading ?st3 = AList.delete s (tg_loading st)"
    using s3(1) ex2 assms(8) l2 by simp
  have h3: "heap ?st3 r = updated (f_local (ev_file e3)) (heap ?st2 r)" by (rule s3(2))
  have t1: "map_of (tg_videos st) (f_id (ev_file e1)) = Some r"
    using assms(1,3) by (simp add: holds_slot_def)
  have t2: "map_of (tg_videos ?st1) (f_id (ev_file e2)) = Some r"
    using hs1 assms(5) by (simp add: holds_slot_def)
  have t3: "map_of (tg_videos ?st2) (f_id (ev_file e3)) = Some r"
    using hs2 assms(7) by (simp add: holds_slot_def)
  have cb: "tg_download_callbacks ?st2 = tg_download_callbacks st"
    using update_file_handler_heap(3)[OF t1, of run] update_file_handler_heap(3)[OF t2, of run]
    by simp
  have cb1: "tg_download_callbacks ?st1 = tg_download_callbacks st"
    using update_file_handler_heap(3)[OF t1, of run] by simp
  have n1: "notified ?st1 = notified st @
       map (\<lambda>c. \<lparr>n_callback = c, n_video = heap ?st1 r, n_loading = tg_loading st\<rparr>)
         (called run (heap ?st1 r) (tg_download_callbacks st))"
    using update_file_handler_notified[OF t1, of run] unfolding l1 h1[symmetric] .
  have n2: "notified ?st2 = notified ?st1 @
       map (\<lambda>c. \<lparr>n_callback = c, n_video = heap ?st2 r, n_loading = tg_loading st\<rparr>)
         (called run (heap ?st2 r) (tg_download_callbacks st))"
    using update_file_handler_notified[OF t2, of run] unfolding l2 h2[symmetric] cb1 .
  have n3: "notified ?st3 = notified ?st2 @
       map (\<lambda>c. \<lparr>n_callback = c, n_video = heap ?st3 r, n_loading = AList.delete s (tg_loading st)\<rparr>)
         (called run (heap ?st3 r) (tg_download_callbacks st))"
    using update_file_handler_notified[OF t3, of run] unfolding l3 h3[symmetric] cb .
  have c1: "\<not> completed (heap ?st1 r)"
    using h1 assms(2,4) by (simp add: completed_def)
  have c2: "\<not> completed (heap ?st2 r)"
    using h2 ex1 assms(6) by (simp add: completed_def)
  have c3: "completed (heap ?st3 r)"
    using h3 ex2 assms(8) by (simp add: completed_def)
  have gone: "s \<notin> set (map fst (tg_loading ?st3))"
    unfolding l3 by (rule delete_key_gone)
  have d: "deliver run [e1] st = ?st1" "deliver run [e1, e2] st = ?st2"
    "deliver run [e1, e2, e3] st = ?st3"
    by simp_all
  show ?thesis
    unfolding d using c1 c2 c3 l1 l2 l3 gone n1 n2 n3 by blast
qed


theorem three_events_complete_once_witness:
  "holds_slot example_state 7 0 2 \<and> expected_size (heap example_state 0) = 1000 \<and>
   f_id (ev_file (example_event 200)) = 7 \<and>
   lf_downloaded_size (f_local (ev_file (example_event 200))) = 200 \<and>
   f_id (ev_file (example_event 600)) = 7 \<and>
   lf_downloaded_size (f_local (ev_file (example_event 600))) = 600 \<and>
   f_id (ev_file (example_event 1000)) = 7 \<and>
   lf_downloaded_size (f_local (ev_file (example_event 1000))) = 1000 \<and>
   \<not> completed (heap (deliver all_return [example_event 200] example_state) 0) \<and>
   \<not> completed (heap (deliver all_return [example_event 200, example_event 600] example_state) 0) \<and>
   completed (heap (deliver all_return
      [example_event 200, example_event 600, example_event 1000] example_state) 0) \<and>
   tg_loading (deliver all_return [example_event 200] example_state) = [(2, 0)] \<and>
   tg_loading (deliver all_return [example_event 200, example_event 600] example_state) = [(2, 0)] \<and>
   tg_loading (deliver all_return
      [example_event 200, example_event 600, example_event 1000] example_state) = []"
proof -
  have hs: "holds_slot example_state 7 0 2"
    by (simp add: holds_slot_def example_state_def)
  have ex: "expected_size (heap example_state 0) = 1000"
    by (simp add: example_state_def)
  have ev: "f_id (ev_file (example_event n)) = 7"
    "lf_downloaded_size (f_local (ev_file (example_event n))) = n" for n
    by (simp_all add: example_event_def)
  have l: "tg_loading example_state = [(2, 0)]"
    by (simp add: example_state_def)
  from three_events_complete_once[OF hs ex ev(1) ev(2) ev(1) ev(2) ev(1) ev(2), of all_return]
  show ?thesis
    using hs ex ev l by simp
qed

text \<open>
  Claim C5 speaks of any item that holds a slot. When the history was fetched again
  during the download, slot 2 holds the former object of the file and the events reach
  the new one: that one is completed by the third event, equals no video of a slot,
  and slot 2 stays taken. When \<open>download_video\<close> was called twice for the video, it
  holds the slots 2 and 3, and the third event frees slot 2 only.
\<close>

lemma refetched_state_fields:
  "tg_loading refetched_state = [(2, 0)]"
  "tg_videos refetched_state = [(7, 1)]"
  "expected_size (heap refetched_state 0) = 1000"
  "downloaded_size (heap refetched_state 0) = 500"
  "expected_size (heap refetched_state 1) = 1000"
  by (simp_all add: refetched_state_def list_videos_def fetch_page_def call_wrap_def
      history_client_def page_videos_def fetch_message_def example_message_def Let_def
      downloading_state_def example_state_def videos_def no_video_def)

lemma stale_slot_step:
  assumes "tg_videos st = [(7, 1)]" and "tg_loading st = [(2, 0)]"
    and "downloaded_size (heap st 0) = 500" and "n \<noteq> 500"
  shows "tg_videos (snd (update_file_handler run (example_event n) st)) = [(7, 1)]"
    and "tg_loading (snd (update_file_handler run (example_event n) st)) = [(2, 0)]"
    and "heap (snd (update_file_handler run (example_event n) st)) 0 = heap st 0"
    and "heap (snd (update_file_handler run (example_event n) st)) 1
           = updated (f_local (ev_file (example_event n))) (heap st 1)"
proof -
  have t: "map_of (tg_videos st) (f_id (ev_file (example_event n))) = Some 1"
    using assms(1) by (simp add: example_event_def)
  have "downloaded_size (updated (f_local (ev_file (example_event n))) (heap st 1)) = n"
    by (simp add: example_event_def)
  with assms(3,4) have ne: "heap st 0 \<noteq> updated (f_local (ev_file (example_event n))) (heap st 1)"
    by auto
  show "tg_videos (snd (update_file_handler run (example_event n) st)) = [(7, 1)]"
    using update_file_handler_heap(2)[OF t, of run] assms(1) by simp
  show "tg_loading (snd (update_file_handler run (example_event n) st)) = [(2, 0)]"
    using update_file_handler_loading[OF t, of run] assms(2) ne
    by (simp add: remove_from_queue_def)
  show "heap (snd (update_file_handler run (example_event n) st)) 0 = heap st 0"
    using update_file_handler_heap(1)[OF t, of run] by simp
  show "heap (snd (update_file_handler run (example_event n) st)) 1
           = updated (f_local (ev_file (example_event n))) (heap st 1)"
    using update_file_handler_heap(1)[OF t, of run] by simp
qed

lemma stale_slot_kept:
  "tg_loading (deliver run [example_event 200, example_event 600, example_event 1000]
      refetched_state) = [(2, 0)]"
  "completed (heap (deliver run [example_event 200, example_event 600, example_event 1000]
      refetched_state) 1)"
  "\<not> completed (heap (deliver run [example_event 200, example_event 600, example_event 1000]
      refetched_state) 0)"
proof -
  let ?st1 = "snd (update_file_handler run (example_event 200) refetched_state)"
  let ?st2 = "snd (update_file_handler run (example_event 600) ?st1)"
  let ?st3 = "snd (update_file_handler run (example_event 1000) ?st2)"
  note f = refetched_state_fields
  have n: "(200::int) \<noteq> 500" "(600::int) \<noteq> 500" "(1000::int) \<noteq> 500" by simp_all
  note s1 = stale_slot_step[where run = run, OF f(2) f(1) f(4) n(1)]
  have d1: "downloaded_size (heap ?st1 0) = 500" using s1(3) f(4) by simp
  note s2 = stale_slot_step[where run = run, OF s1(1) s1(2) d1 n(2)]
  have d2: "downloaded_size (heap ?st2 0) = 500" using s2(3) d1 by simp
  note s3 = stale_slot_step[where run = run, OF s2(1) s2(2) d2 n(3)]
  have e0: "expected_size (heap ?st3 0) = 1000" "downloaded_size (heap ?st3 0) = 500"
    using s3(3) s2(3) s1(3) f(3,4) by simp_all
  have e1: "expected_size (heap ?st3 1) = 1000" "downloaded_size (heap ?st3 1) = 1000"
    using s3(4) s2(4) s1(4) f(5) by (simp_all add: example_event_def)
  have d: "deliver run [example_event 200, example_event 600, example_event 1000] refetched_state = ?st3"
    by simp
  show "tg_loading (deliver run [example_event 200, example_event 600, example_event 1000]
      refetched_state) = [(2, 0)]"
    unfolding d by (rule s3(2))
  show "completed (heap (deliver run [example_event 200, example_event 600, example_event 1000]
      refetched_state) 1)"
    unfolding d using e1 by (simp add: completed_def)
  show "\<not> completed (heap (deliver run [example_event 200, example_event 600, example_event 1000]
      refetched_state) 0)"
    unfolding d using e0 by (simp add: completed_def)
qed

lemma restarted_state_fields:
  "tg_loading restarted_state = [(2, 0), (3, 0)]"
  "tg_videos restarted_state = [(7, 0)]"
  "expected_size (heap restarted_state 0) = 1000"
proof -
  have l: "tg_loading example_state = [(2, 0)]" by (simp add: example_state_def)
  have free: "2 \<le> (3::nat)" "(3::nat) \<le> 32" "3 \<notin> set (map fst (tg_loading example_state))"
    "\<forall>j. 2 \<le> j \<and> j < 3 \<longrightarrow> j \<in> set (map fst (tg_loading example_state))"
    unfolding l by auto
  show "tg_loading restarted_state = [(2, 0), (3, 0)]"
    unfolding restarted_state_def
    using download_video_first_free(1)[OF free, of ok_client 0] l by simp
  have s: "restarted_state = example_state
      \<lparr>tg_loading := tg_loading example_state @ [(3, 0)],
        client_calls := client_calls example_state @ [DownloadFile (file_id (heap example_state 0)) 3]\<rparr>"
    unfolding restarted_state_def using free by (rule download_video_first_free_state)
  show "tg_videos restarted_state = [(7, 0)]"
    unfolding s by (simp add: example_state_def)
  show "expected_size (heap restarted_state 0) = 1000"
    unfolding s by (simp add: example_state_def)
qed

lemma second_slot_step:
  assumes "tg_videos st = [(7, 0)]" and "tg_loading st = [(2, 0), (3, 0)]"
    and "expected_size (heap st 0) = 1000"
  shows "tg_videos (snd (update_file_handler run (example_event n) st)) = [(7, 0)]"
    and "tg_loading (snd (update_file_handler run (example_event n) st)) =
           (if n = 1000 then [(3, 0)] else [(2, 0), (3, 0)])"
    and "expected_size (heap (snd (update_file_handler run (example_event n) st)) 0) = 1000"
proof -
  have t: "map_of (tg_videos st) (f_id (ev_file (example_event n))) = Some 0"
    using assms(1) by (simp add: example_event_def)
  have c: "completed (updated (f_local (ev_file (example_event n))) (heap st 0)) \<longleftrightarrow> n = 1000"
    using assms(3) by (auto simp: completed_def example_event_def)
  show "tg_videos (snd (update_file_handler run (example_event n) st)) = [(7, 0)]"
    using update_file_handler_heap(2)[OF t, of run] assms(1) by simp
  show "tg_loading (snd (update_file_handler run (example_event n) st)) =
           (if n = 1000 then [(3, 0)] else [(2, 0), (3, 0)])"
    using update_file_handler_loading[OF t, of run] assms(2) c
    by (simp add: remove_from_queue_def)
  show "expected_size (heap (snd (update_file_handler run (example_event n) st)) 0) = 1000"
    using update_file_handler_heap(1)[OF t, of run] assms(3) by simp
qed

lemma second_slot_kept:
  "tg_loading (deliver run [example_event 200, example_event 600, example_event 1000]
      restarted_state) = [(3, 0)]"
proof -
  let ?st1 = "snd (update_file_handler run (example_event 200) restarted_state)"
  let ?st2 = "snd (update_file_handler run (example_event 600) ?st1)"
  note f = restarted_state_fields
  note s1 = second_slot_step[where run = run and n = 200, OF f(2) f(1) f(3)]
  have l1: "tg_loading ?st1 = [(2, 0), (3, 0)]" using s1(2) by simp
  note s2 = second_slot_step[where run = run and n = 600, OF s1(1) l1 s1(3)]
  have l2: "tg_loading ?st2 = [(2, 0), (3, 0)]" using s2(2) by simp
  note s3 = second_slot_step[where run = run and n = 1000, OF s2(1) l2 s2(3)]
  show ?thesis using s3(2) by simp
qed

theorem three_events_slot_not_released_counterexample:
  "tg_loading refetched_state = [(2, 0)] \<and>
   expected_size (heap refetched_state 0) = 1000 \<and>
   tg_loading (deliver all_return [example_event 200, example_event 600, example_event 1000]
      refetched_state) = [(2, 0)] \<and>
   completed (heap (deliver all_return [example_event 200, example_event 600, example_event 1000]
      refetched_state) 1) \<and>
   \<not> completed (heap (deliver all_return [example_event 200, example_event 600, example_event 1000]
      refetched_state) 0) \<and>
   tg_loading restarted_state = [(2, 0), (3, 0)] \<and>
   expected_size (heap restarted_state 0) = 1000 \<and>
   tg_loading (deliver all_return [example_event 200, example_event 600, example_event 1000]
      restarted_state) = [(3, 0)]"
  using refetched_state_fields(1,3) stale_slot_kept[of all_return]
    restarted_state_fields(1,3) second_slot_kept[of all_return]
  by simp

section \<open>Properties of the catalog\<close>

lemma delete_is_remove1:
  "distinct (map fst al) \<Longrightarrow> (k, v) \<in> set al \<Longrightarrow> AList.delete k al = remove1 (k, v) al"
proof (induction al)
  case Nil
  then show ?case by simp
next
  case (Cons a al)
  show ?case
  proof (cases "fst a = k")
    case True
    with Cons.prems have "a = (k, v)"
      by (cases a) (auto simp: image_iff)
    moreover have "AList.delete k al = al"
      using Cons.prems True by (simp add: AList.delete_eq filter_id_conv image_iff) force
    ultimately show ?thesis by simp
  next
    case False
    with Cons show ?thesis by (cases a) auto
  qed
qed

text \<open>
  Claim C7. For a video of the catalog, \<open>delete_message\<close> sends one request, whose
  message ids are the message id of the video followed by the ids of its album. When
  the remote accepts it, exactly the entry of the video leaves the catalog. When the
  remote fails, \<open>TgException\<close> with the method and the error information is raised,
  and the state is the one before the call with the request recorded: the catalog is
  unchanged.
\<close>

theorem delete_message_one_call:
  assumes "map_of (tg_videos st) (file_id (heap st r)) = Some r"
    and "distinct (map fst (tg_videos st))"
  shows
    "client_calls (snd (delete_message cl r st)) =
       client_calls st @
       [DeleteMessages chat_id
          (message_id (heap st r) # (case album (heap st r) of None \<Rightarrow> [] | Some a \<Rightarrow> a))] \<and>
     (\<not> r_error (cl (DeleteMessages chat_id
          (message_id (heap st r) # (case album (heap st r) of None \<Rightarrow> [] | Some a \<Rightarrow> a)))) \<longrightarrow>
        fst (delete_message cl r st) = Inr () \<and>
        tg_videos (snd (delete_message cl r st)) =
          remove1 (file_id (heap st r), r) (tg_videos st) \<and>
        length (tg_videos (snd (delete_message cl r st))) + 1 = length (tg_videos st) \<and>
        map_of (tg_videos (snd (delete_message cl r st))) (file_id (heap st r)) = None) \<and>
     (r_error (cl (DeleteMessages chat_id
          (message_id (heap st r) # (case album (heap st r) of None \<Rightarrow> [] | Some a \<Rightarrow> a)))) \<longrightarrow>
        delete_message cl r st =
          (Inl (TgException (''cant deleteMessages: '' @
             r_error_info (cl (DeleteMessages chat_id
               (message_id (heap st r) # (case album (heap st r) of None \<Rightarrow> [] | Some a \<Rightarrow> a)))))),
           st\<lparr>client_calls := client_calls st @
             [DeleteMessages chat_id
               (message_id (heap st r) # (case album (heap st r) of None \<Rightarrow> [] | Some a \<Rightarrow> a))]\<rparr>) \<and>
        tg_videos (snd (delete_message cl r st)) = tg_videos st)"
proof -
  let ?ids = "message_id (heap st r) # (case album (heap st r) of None \<Rightarrow> [] | Some a \<Rightarrow> a)"
  let ?fid = "file_id (heap st r)"
  have ids: "[message_id (heap st r)] @
      (case album (heap st r) of None \<Rightarrow> [] | Some a \<Rightarrow> if a = [] then [] else a) = ?ids"
    by (simp split: option.splits)
  from assms(1) have mem: "(?fid, r) \<in> set (tg_videos st)"
    by (rule map_of_SomeD)
  then have key: "?fid \<in> set (map fst (tg_videos st))"
    by (force simp: image_iff)
  have del: "AList.delete ?fid (tg_videos st) = remove1 (?fid, r) (tg_videos st)"
    using assms(2) mem by (rule delete_is_remove1)
  have len: "length (remove1 (?fid, r) (tg_videos st)) + 1 = length (tg_videos st)"
  proof -
    have "0 < length (tg_videos st)" using mem by (cases "tg_videos st") auto
    then show ?thesis using mem by (simp add: length_remove1)
  qed
  have none: "map_of (AList.delete ?fid (tg_videos st)) ?fid = None"
    by (simp add: delete_conv')
  have calls: "client_calls (snd (delete_message cl r st)) = client_calls st @ [DeleteMessages chat_id ?ids]"
    using key unfolding delete_message_def Let_def ids
    by (simp add: call_def Let_def)
  have ok: "fst (delete_message cl r st) = Inr () \<and>
        tg_videos (snd (delete_message cl r st)) = AList.delete ?fid (tg_videos st)"
    if "\<not> r_error (cl (DeleteMessages chat_id ?ids))"
    using key that unfolding delete_message_def Let_def ids
    by (simp add: call_def Let_def)
  have err: "delete_message cl r st =
          (Inl (TgException (''cant deleteMessages: '' @ r_error_info (cl (DeleteMessages chat_id ?ids)))),
           st\<lparr>client_calls := client_calls st @ [DeleteMessages chat_id ?ids]\<rparr>)"
    if "r_error (cl (DeleteMessages chat_id ?ids))"
    using that unfolding delete_message_def Let_def ids
    by (simp add: call_def Let_def)
  show ?thesis
    using calls ok err del len none by auto
qed


theorem delete_message_one_call_witness:
  "map_of (tg_videos album_state) (file_id (heap album_state 0)) = Some 0 \<and>
   distinct (map fst (tg_videos album_state)) \<and>
   \<not> r_error (ok_client (DeleteMessages chat_id [70, 71, 72])) \<and>
   client_calls (snd (delete_message ok_client 0 album_state)) = [DeleteMessages chat_id [70, 71, 72]] \<and>
   fst (delete_message ok_client 0 album_state) = Inr () \<and>
   tg_videos (snd (delete_message ok_client 0 album_state)) = [] \<and>
   r_error (failing_client ''gone'' (DeleteMessages chat_id [70, 71, 72])) \<and>
   fst (delete_message (failing_client ''gone'') 0 album_state)
     = Inl (TgException ''cant deleteMessages: gone'') \<and>
   client_calls (snd (delete_message (failing_client ''gone'') 0 album_state))
     = [DeleteMessages chat_id [70, 71, 72]] \<and>
   tg_videos (snd (delete_message (failing_client ''gone'') 0 album_state)) = [(7, 0)]"
proof -
  have v: "message_id (heap album_state 0) = 70" "album (heap album_state 0) = Some [71, 72]"
    "file_id (heap album_state 0) = 7"
    by (simp_all add: album_state_def example_state_def)
  have c: "tg_videos album_state = [(7, 0)]" "client_calls album_state = []"
    by (simp_all add: album_state_def example_state_def)
  have t: "map_of (tg_videos album_state) (file_id (heap album_state 0)) = Some 0"
    "distinct (map fst (tg_videos album_state))"
    unfolding v c by simp_all
  have ok: "\<not> r_error (ok_client (DeleteMessages chat_id [70, 71, 72]))"
    by (simp add: ok_client_def)
  have er: "r_error (failing_client ''gone'' (DeleteMessages chat_id [70, 71, 72]))"
    "r_error_info (failing_client ''gone'' (DeleteMessages chat_id [70, 71, 72])) = ''gone''"
    by (simp_all add: failing_client_def)
  from delete_message_one_call[OF t, of ok_client] ok
  have a: "client_calls (snd (delete_message ok_client 0 album_state)) = [DeleteMessages chat_id [70, 71, 72]]"
    "fst (delete_message ok_client 0 album_state) = Inr ()"
    "tg_videos (snd (delete_message ok_client 0 album_state)) = []"
    unfolding v c by simp_all
  from delete_message_one_call[OF t, of "failing_client ''gone''"] er
  have b: "fst (delete_message (failing_client ''gone'') 0 album_state)
     = Inl (TgException ''cant deleteMessages: gone'')"
    "client_calls (snd (delete_message (failing_client ''gone'') 0 album_state))
     = [DeleteMessages chat_id [70, 71, 72]]"
    "tg_videos (snd (delete_message (failing_client ''gone'') 0 album_state)) = [(7, 0)]"
    unfolding v c by (simp_all add: c)
  show ?thesis
    using t ok er(1) a b by blast
qed

subsection \<open>Loading pages\<close>

lemma alloc_page_keeps [simp]:
  "client_calls (snd (alloc_page kvs st)) = client_calls st"
  "tg_loading (snd (alloc_page kvs st)) = tg_loading st"
  "tg_videos (snd (alloc_page kvs st)) = tg_videos st"
  "tg_download_callbacks (snd (alloc_page kvs st)) = tg_download_callbacks st"
  "notified (snd (alloc_page kvs st)) = notified st"
  by (induction kvs st rule: alloc_page.induct; simp add: Let_def)+

lemma call_wrap_keeps [simp]:
  "client_calls (snd (call_wrap cl req st)) = client_calls st @ [req]"
  "tg_loading (snd (call_wrap cl req st)) = tg_loading st"
  "tg_videos (snd (call_wrap cl req st)) = tg_videos st"
  "heap (snd (call_wrap cl req st)) = heap st"
  "next_ref (snd (call_wrap cl req st)) = next_ref st"
  by (simp_all add: call_wrap_def Let_def)

lemma fetch_page_calls:
  "client_calls (snd (fetch_page cl limit from_id st)) =
     client_calls st @ [GetChatHistory chat_id limit from_id]"
  by (simp add: fetch_page_def call_wrap_def Let_def)

lemma list_videos_calls:
  "client_calls (snd (list_videos cl limit st)) =
     client_calls st @ [GetChatHistory chat_id limit None]"
proof -
  obtain x st1 where f: "fetch_page cl limit None st = (x, st1)"
    by (cases "fetch_page cl limit None st")
  with fetch_page_calls[of cl limit None st]
  have "client_calls st1 = client_calls st @ [GetChatHistory chat_id limit None]" by simp
  with f show ?thesis
    by (cases x) (simp_all add: list_videos_def Let_def)
qed

text \<open>
  Claim C9. With an empty catalog, \<open>load_next(limit)\<close> does what \<open>list_videos()\<close>
  does with its default page size 100: the request sent asks for 100 messages from the
  newest one, and the result does not depend on \<open>limit\<close>. With a catalog that is not
  empty, the request asks for \<open>limit\<close> messages from the message of the last video.
\<close>

theorem load_next_initial_page_size:
  "(videos st = [] \<longrightarrow>
      snd (load_next cl limit st) = snd (list_videos cl 100 st) \<and>
      load_next cl limit st = load_next cl limit' st \<and>
      client_calls (snd (load_next cl limit st)) =
        client_calls st @ [GetChatHistory chat_id 100 None]) \<and>
   (videos st \<noteq> [] \<longrightarrow>
      client_calls (snd (load_next cl limit st)) =
        client_calls st @
        [GetChatHistory chat_id limit (Some (message_id (heap st (last (videos st)))))])"
proof (intro conjI impI)
  assume e: "videos st = []"
  obtain x st1 where l: "list_videos cl 100 st = (x, st1)"
    by (cases "list_videos cl 100 st")
  with e show s: "snd (load_next cl limit st) = snd (list_videos cl 100 st)"
    by (cases x) (simp_all add: load_next_def)
  from e show "load_next cl limit st = load_next cl limit' st"
    by (simp add: load_next_def)
  show "client_calls (snd (load_next cl limit st)) = client_calls st @ [GetChatHistory chat_id 100 None]"
    unfolding s by (rule list_videos_calls)
next
  assume n: "videos st \<noteq> []"
  obtain x st1 where f:
    "fetch_page cl limit (Some (message_id (heap st (last (videos st))))) st = (x, st1)"
    by (cases "fetch_page cl limit (Some (message_id (heap st (last (videos st))))) st")
  with fetch_page_calls[of cl limit "Some (message_id (heap st (last (videos st))))" st]
  have "client_calls st1 = client_calls st @
        [GetChatHistory chat_id limit (Some (message_id (heap st (last (videos st)))))]"
    by simp
  with f n show "client_calls (snd (load_next cl limit st)) =
        client_calls st @
        [GetChatHistory chat_id limit (Some (message_id (heap st (last (videos st)))))]"
    by (cases x) (simp_all add: load_next_def Let_def)
qed

theorem load_next_initial_page_size_witness:
  "videos init_state = [] \<and>
   client_calls (snd (load_next ok_client 10 init_state)) = [GetChatHistory chat_id 100 None] \<and>
   load_next ok_client 10 init_state = load_next ok_client 25 init_state \<and>
   videos example_state \<noteq> [] \<and>
   client_calls (snd (load_next ok_client 10 example_state)) = [GetChatHistory chat_id 10 (Some 70)]"
proof -
  have e: "videos init_state = []" "client_calls init_state = []"
    by (simp_all add: videos_def init_state_def)
  have n: "videos example_state \<noteq> []" "client_calls example_state = []"
    "message_id (heap example_state (last (videos example_state))) = 70"
    by (simp_all add: videos_def example_state_def)
  note t = load_next_initial_page_size[of init_state ok_client 10 25]
  have "client_calls (snd (load_next ok_client 10 init_state)) =
      client_calls init_state @ [GetChatHistory chat_id 100 None]"
    using t e(1) by blast
  then have a1: "client_calls (snd (load_next ok_client 10 init_state)) = [GetChatHistory chat_id 100 None]"
    unfolding e(2) by simp
  have a2: "load_next ok_client 10 init_state = load_next ok_client 25 init_state"
    using t e(1) by blast
  note a = a1 a2
  have "client_calls (snd (load_next ok_client 10 example_state)) =
      client_calls example_state @
      [GetChatHistory chat_id 10 (Some (message_id (heap example_state (last (videos example_state)))))]"
    using load_next_initial_page_size[of example_state ok_client 10 25] n(1) by blast
  then have b: "client_calls (snd (load_next ok_client 10 example_state)) = [GetChatHistory chat_id 10 (Some 70)]"
    unfolding n(2) n(3) by simp
  show ?thesis using e(1) n(1) a b by blast
qed

subsection \<open>Fetching a page again\<close>

lemma alloc_page_refs:
  "fst (alloc_page kvs st) = zip (map fst kvs) [next_ref st ..< next_ref st + length kvs]"
proof (induction kvs st rule: alloc_page.induct)
  case (1 st)
  then show ?case by simp
next
  case (2 k v kvs st)
  have "[next_ref st ..< next_ref st + length ((k, v) # kvs)]
      = next_ref st # [Suc (next_ref st) ..< Suc (next_ref st) + length kvs]"
    using upt_conv_Cons[of "next_ref st" "Suc (next_ref st) + length kvs"] by simp
  then show ?case
    using 2 by (simp add: Let_def)
qed

lemma alloc_page_next_ref:
  "next_ref (snd (alloc_page kvs st)) = next_ref st + length kvs"
  by (induction kvs st rule: alloc_page.induct) (simp_all add: Let_def)

lemma alloc_page_old:
  "a < next_ref st \<Longrightarrow> heap (snd (alloc_page kvs st)) a = heap st a"
  by (induction kvs st rule: alloc_page.induct) (simp_all add: Let_def)

lemma alloc_page_new:
  "i < length kvs \<Longrightarrow> heap (snd (alloc_page kvs st)) (next_ref st + i) = snd (kvs ! i)"
proof (induction kvs st arbitrary: i rule: alloc_page.induct)
  case (1 st)
  then show ?case by simp
next
  case (2 k v kvs st)
  let ?st' = "st\<lparr>heap := (heap st)(next_ref st := v), next_ref := Suc (next_ref st)\<rparr>"
  show ?case
  proof (cases i)
    case 0
    have "heap (snd (alloc_page kvs ?st')) (next_ref st) = heap ?st' (next_ref st)"
      by (rule alloc_page_old) simp
    with 0 show ?thesis by (simp add: Let_def)
  next
    case (Suc j)
    with 2 have "heap (snd (alloc_page kvs ?st')) (next_ref ?st' + j) = snd (kvs ! j)"
      by simp
    with Suc show ?thesis by (simp add: Let_def)
  qed
qed

lemma fetch_message_keys:
  "distinct (map fst (fst acc)) \<Longrightarrow> distinct (map fst (fst (fetch_message msg acc)))"
  by (auto simp: fetch_message_def Let_def distinct_update split: option.splits)

lemma fold_fetch_message_keys:
  "distinct (map fst (fst acc)) \<Longrightarrow> distinct (map fst (fst (fold fetch_message msgs acc)))"
  by (induction msgs arbitrary: acc) (simp_all add: fetch_message_keys)

lemma page_videos_keys:
  "distinct (map fst (page_videos msgs))"
proof -
  have "distinct (map fst (fst (fold fetch_message msgs ([], \<lambda>a. []))))"
    by (rule fold_fetch_message_keys) simp
  moreover have "map fst (page_videos msgs) = map fst (fst (fold fetch_message msgs ([], \<lambda>a. [])))"
    by (simp add: page_videos_def Let_def case_prod_beta comp_def)
  ultimately show ?thesis by simp
qed

lemma map_of_dict_merge:
  "distinct (map fst b) \<Longrightarrow> map_of (dict_merge a b) = map_of a ++ map_of b"
proof (induction b arbitrary: a)
  case Nil
  then show ?case by (simp add: dict_merge_def)
next
  case (Cons x b)
  obtain k v where x: "x = (k, v)" by (cases x)
  from Cons.prems x have k: "k \<notin> dom (map_of b)" and d: "distinct (map fst b)"
    by (auto simp: dom_map_of_conv_image_fst)
  have "dict_merge a (x # b) = dict_merge (AList.update k v a) b"
    by (simp add: dict_merge_def x)
  also have "map_of \<dots> = map_of (AList.update k v a) ++ map_of b"
    by (rule Cons.IH[OF d])
  also have "\<dots> = (map_of a)(k \<mapsto> v) ++ map_of b"
    by (simp add: update_conv')
  also have "\<dots> = (map_of a ++ map_of b)(k \<mapsto> v)"
    using k by (rule map_add_upd_left)
  also have "\<dots> = map_of a ++ map_of (x # b)"
    by (simp add: x)
  finally show ?case .
qed

lemma fetch_page_ok:
  assumes "\<not> r_error (cl (GetChatHistory chat_id limit from_id))"
  shows "fetch_page cl limit from_id st =
     (Inr (fst (alloc_page (page_videos (r_update (cl (GetChatHistory chat_id limit from_id))))
                  (st\<lparr>client_calls := client_calls st @ [GetChatHistory chat_id limit from_id]\<rparr>))),
      snd (alloc_page (page_videos (r_update (cl (GetChatHistory chat_id limit from_id))))
                  (st\<lparr>client_calls := client_calls st @ [GetChatHistory chat_id limit from_id]\<rparr>)))"
  using assms by (simp add: fetch_page_def call_wrap_def Let_def)


lemma replaced_by_pageI:
  assumes "\<And>i. i < length page \<Longrightarrow> map_of (tg_videos st') (fst (page ! i)) = Some (next_ref st + i)"
    and "\<And>i. i < length page \<Longrightarrow> heap st' (next_ref st + i) = snd (page ! i)"
    and "\<And>a. a < next_ref st \<Longrightarrow> heap st' a = heap st a"
    and "tg_loading st' = tg_loading st"
  shows "replaced_by_page st page st'"
  using assms by (simp add: replaced_by_page_def list_all_iff)

lemma page_refs_lookup:
  assumes "distinct (map fst page)" and "i < length page"
  shows "map_of (zip (map fst page) [n ..< n + length page]) (fst (page ! i)) = Some (n + i)"
proof -
  have "map_of (zip (map fst page) [n ..< n + length page]) (map fst page ! i)
      = Some ([n ..< n + length page] ! i)"
    using assms by (intro map_of_zip_nth) simp_all
  with assms(2) show ?thesis by simp
qed

lemma list_videos_replaces:
  assumes "\<not> r_error (cl (GetChatHistory chat_id limit None))"
  shows "replaced_by_page st (page_videos (r_update (cl (GetChatHistory chat_id limit None))))
           (snd (list_videos cl limit st))"
proof -
  let ?page = "page_videos (r_update (cl (GetChatHistory chat_id limit None)))"
  let ?st1 = "st\<lparr>client_calls := client_calls st @ [GetChatHistory chat_id limit None]\<rparr>"
  let ?ap = "alloc_page ?page ?st1"
  have fp: "fetch_page cl limit None st = (Inr (fst ?ap), snd ?ap)"
    using fetch_page_ok[of cl limit None st] assms by blast
  have st': "snd (list_videos cl limit st) = (snd ?ap)\<lparr>tg_videos := fst ?ap\<rparr>"
    by (simp add: list_videos_def fp Let_def)
  have n: "next_ref ?st1 = next_ref st" by simp
  show ?thesis
  proof (rule replaced_by_pageI)
    fix i assume i: "i < length ?page"
    show "map_of (tg_videos (snd (list_videos cl limit st))) (fst (?page ! i)) = Some (next_ref st + i)"
      unfolding st' using page_refs_lookup[OF page_videos_keys i, of "next_ref st"]
      by (simp add: alloc_page_refs)
    show "heap (snd (list_videos cl limit st)) (next_ref st + i) = snd (?page ! i)"
      unfolding st' using alloc_page_new[OF i, of ?st1] by simp
  next
    fix a assume "a < next_ref st"
    then show "heap (snd (list_videos cl limit st)) a = heap st a"
      unfolding st' using alloc_page_old[of a ?st1 ?page] by simp
  next
    show "tg_loading (snd (list_videos cl limit st)) = tg_loading st"
      unfolding st' by simp
  qed
qed

lemma load_next_replaces:
  assumes "videos st \<noteq> []"
    and "\<not> r_error (cl (GetChatHistory chat_id limit (Some (message_id (heap st (last (videos st)))))))"
  shows "replaced_by_page st
           (page_videos (r_update (cl (GetChatHistory chat_id limit
              (Some (message_id (heap st (last (videos st)))))))))
           (snd (load_next cl limit st))"
proof -
  let ?req = "GetChatHistory chat_id limit (Some (message_id (heap st (last (videos st)))))"
  let ?page = "page_videos (r_update (cl ?req))"
  let ?st1 = "st\<lparr>client_calls := client_calls st @ [?req]\<rparr>"
  let ?ap = "alloc_page ?page ?st1"
  have fp: "fetch_page cl limit (Some (message_id (heap st (last (videos st))))) st
      = (Inr (fst ?ap), snd ?ap)"
    using fetch_page_ok[of cl limit "Some (message_id (heap st (last (videos st))))" st] assms(2)
    by blast
  have st': "snd (load_next cl limit st) =
      (snd ?ap)\<lparr>tg_videos := dict_merge (tg_videos (snd ?ap)) (fst ?ap)\<rparr>"
    using assms(1) by (simp add: load_next_def fp Let_def)
  have keys: "distinct (map fst (fst ?ap))"
    using page_videos_keys[of "r_update (cl ?req)"] by (simp add: alloc_page_refs)
  show ?thesis
  proof (rule replaced_by_pageI)
    fix i assume i: "i < length ?page"
    have "map_of (fst ?ap) (fst (?page ! i)) = Some (next_ref st + i)"
      using page_refs_lookup[OF page_videos_keys i, of "next_ref st"]
      by (simp add: alloc_page_refs)
    then show "map_of (tg_videos (snd (load_next cl limit st))) (fst (?page ! i)) = Some (next_ref st + i)"
      unfolding st' by (simp add: map_of_dict_merge[OF keys] map_add_Some_iff)
    show "heap (snd (load_next cl limit st)) (next_ref st + i) = snd (?page ! i)"
      unfolding st' using alloc_page_new[OF i, of ?st1] by simp
  next
    fix a assume "a < next_ref st"
    then show "heap (snd (load_next cl limit st)) a = heap st a"
      unfolding st' using alloc_page_old[of a ?st1 ?page] by simp
  next
    show "tg_loading (snd (load_next cl limit st)) = tg_loading st"
      unfolding st' by simp
  qed
qed

text \<open>
  Claim C2, as the code has it. A fetch that succeeds, by \<open>list_videos\<close> or by
  \<open>load_next\<close> on a catalog that is not empty, gives every file of the fetched page a
  newly built video as its entry of the catalog, with the \<open>downloaded_size\<close> and the
  \<open>local_path\<close> of the page, whether a slot holds the former video of the file or
  not. The former video object is not modified and stays in its slot: the slot mapping
  and the objects that existed before the fetch are unchanged.
\<close>

theorem refetch_replaces_catalog_entries:
  "(\<not> r_error (cl (GetChatHistory chat_id limit None)) \<longrightarrow>
      replaced_by_page st (page_videos (r_update (cl (GetChatHistory chat_id limit None))))
        (snd (list_videos cl limit st))) \<and>
   (videos st \<noteq> [] \<and>
    \<not> r_error (cl (GetChatHistory chat_id limit (Some (message_id (heap st (last (videos st))))))) \<longrightarrow>
      replaced_by_page st
        (page_videos (r_update (cl (GetChatHistory chat_id limit
           (Some (message_id (heap st (last (videos st)))))))))
        (snd (load_next cl limit st)))"
  using list_videos_replaces load_next_replaces by blast


text \<open>
  Claim C2 says that a refetch leaves the dynamic fields of a video that holds a slot
  unchanged. The video of file 7 holds slot 2 with 500 bytes downloaded; the history
  has the same file with nothing downloaded. After \<open>list_videos\<close>, and after
  \<open>load_next\<close>, the entry of file 7 in the catalog is a new video with
  \<open>downloaded_size = 0\<close> and an empty path.
\<close>

lemma example_page:
  "page_videos (r_update (history_client [example_message] req)) =
     [(7, \<lparr>caption = None, duration = 60, expected_size = 1000, downloaded_size = 0,
           file_id = 7, message_id = 70, album = None, local_path = Some [],
           source_group = None\<rparr>)]"
  by (simp add: history_client_def page_videos_def fetch_message_def example_message_def Let_def)

lemma downloading_state_fields:
  "next_ref downloading_state = 1" "tg_loading downloading_state = [(2, 0)]"
  "tg_videos downloading_state = [(7, 0)]"
  "downloaded_size (heap downloading_state 0) = 500"
  "local_path (heap downloading_state 0) = Some ''/tmp/v''"
  "videos downloading_state \<noteq> []"
  by (simp_all add: downloading_state_def example_state_def videos_def)

lemma history_client_ok:
  "\<not> r_error (history_client msgs req)"
  by (simp add: history_client_def)

lemma replaced_by_example_page:
  assumes "replaced_by_page downloading_state
      (page_videos (r_update (history_client [example_message] req))) st'"
  shows "map_of (tg_videos st') 7 = Some 1" "downloaded_size (heap st' 1) = 0"
    "local_path (heap st' 1) = Some []" "heap st' 0 = heap downloading_state 0"
    "tg_loading st' = [(2, 0)]"
  using assms unfolding example_page replaced_by_page_def downloading_state_fields
  by simp_all

theorem refetch_replaces_tracked_item_counterexample:
  "(2, 0) \<in> set (tg_loading downloading_state) \<and>
   map_of (tg_videos downloading_state) 7 = Some 0 \<and>
   downloaded_size (heap downloading_state 0) = 500 \<and>
   local_path (heap downloading_state 0) = Some ''/tmp/v'' \<and>
   map_of (tg_videos (snd (list_videos (history_client [example_message]) 100 downloading_state))) 7
     = Some 1 \<and>
   downloaded_size (heap (snd (list_videos (history_client [example_message]) 100 downloading_state)) 1)
     = 0 \<and>
   local_path (heap (snd (list_videos (history_client [example_message]) 100 downloading_state)) 1)
     = Some [] \<and>
   map_of (tg_videos (snd (load_next (history_client [example_message]) 10 downloading_state))) 7
     = Some 1 \<and>
   downloaded_size (heap (snd (load_next (history_client [example_message]) 10 downloading_state)) 1)
     = 0 \<and>
   local_path (heap (snd (load_next (history_client [example_message]) 10 downloading_state)) 1)
     = Some []"
proof -
  have r1: "replaced_by_page downloading_state
     (page_videos (r_update (history_client [example_message] (GetChatHistory chat_id 100 None))))
     (snd (list_videos (history_client [example_message]) 100 downloading_state))"
    using list_videos_replaces[of "history_client [example_message]" 100 downloading_state]
      history_client_ok by blast
  have r2: "replaced_by_page downloading_state
     (page_videos (r_update (history_client [example_message] (GetChatHistory chat_id 10
        (Some (message_id (heap downloading_state (last (videos downloading_state)))))))))
     (snd (load_next (history_client [example_message]) 10 downloading_state))"
    using load_next_replaces[of downloading_state "history_client [example_message]" 10]
      history_client_ok downloading_state_fields(6) by blast
  show ?thesis
    using replaced_by_example_page(1-3)[OF r1] replaced_by_example_page(1-3)[OF r2]
      downloading_state_fields(2-5) by simp
qed

theorem refetch_replaces_catalog_entries_witness:
  "\<not> r_error (history_client [example_message] (GetChatHistory chat_id 100 None)) \<and>
   videos downloading_state \<noteq> [] \<and>
   \<not> r_error (history_client [example_message] (GetChatHistory chat_id 10
        (Some (message_id (heap downloading_state (last (videos downloading_state))))))) \<and>
   replaced_by_page downloading_state
     (page_videos (r_update (history_client [example_message] (GetChatHistory chat_id 100 None))))
     (snd (list_videos (history_client [example_message]) 100 downloading_state)) \<and>
   replaced_by_page downloading_state
     (page_videos (r_update (history_client [example_message] (GetChatHistory chat_id 10
        (Some (message_id (heap downloading_state (last (videos downloading_state)))))))))
     (snd (load_next (history_client [example_message]) 10 downloading_state)) \<and>
   heap (snd (list_videos (history_client [example_message]) 100 downloading_state)) 0
     = heap downloading_state 0 \<and>
   tg_loading (snd (list_videos (history_client [example_message]) 100 downloading_state)) = [(2, 0)] \<and>
   heap (snd (load_next (history_client [example_message]) 10 downloading_state)) 0
     = heap downloading_state 0 \<and>
   tg_loading (snd (load_next (history_client [example_message]) 10 downloading_state)) = [(2, 0)]"
proof -
  note t1 = refetch_replaces_catalog_entries
    [of "history_client [example_message]" 100 downloading_state]
  note t2 = refetch_replaces_catalog_entries
    [of "history_client [example_message]" 10 downloading_state]
  have r1: "replaced_by_page downloading_state
     (page_videos (r_update (history_client [example_message] (GetChatHistory chat_id 100 None))))
     (snd (list_videos (history_client [example_message]) 100 downloading_state))"
    using t1 history_client_ok by blast
  have r2: "replaced_by_page downloading_state
     (page_videos (r_update (history_client [example_message] (GetChatHistory chat_id 10
        (Some (message_id (heap downloading_state (last (videos downloading_state)))))))))
     (snd (load_next (history_client [example_message]) 10 downloading_state))"
    using t2 history_client_ok downloading_state_fields(6) by blast
  show ?thesis
    using r1 r2 replaced_by_example_page(4,5)[OF r1] replaced_by_example_page(4,5)[OF r2]
      history_client_ok downloading_state_fields(6)
    by blast
qed

end
